theory Spec2Isabelle
  imports Main "HOL-Library.Word" "HOL-Library.Char_ord" "HOL-Library.Monad_Syntax"
begin

unbundle bit_operations_syntax

section \<open>Errors\<close>

text \<open>
  The parser stores values of Go's \<open>error\<close> interface in its error slot. Every
  \<open>ProtocolError\<close> the package builds is listed as a constructor of its own, carrying the
  arguments of its format string; \<open>EOF\<close> is \<open>io.EOF\<close>, \<open>NumError\<close> the failure of
  \<open>strconv.Atoi\<close> and \<open>TimeParseError\<close> the failure of \<open>time.Parse\<close>. The messages
  of different constructors differ in the source too, so the comparison
  \<open>p.err == ErrLineTooShort\<close> is equality of constructors here.
\<close>

datatype error =
    ErrTooLong
  | ErrLineTooShort
  | ErrNegativeAdvance
  | ErrAdvanceTooFar
  | ErrSeqNoOutOfBounds
  | TypeMismatchError string string
  | InvalidTokenError string char string
  | ExpectedError string string
  | UnknownFlagError string
  | UnknownFieldError string
  | InvalidPartSpecifier
  | InvalidSearchKey
  | EOF
  | NumError string
  | TimeParseError string

section \<open>Sequence sets (sequence\_set.go)\<close>

text \<open>
  Go's \<open>int\<close> is a 64-bit two's complement integer. Values are kept as \<open>int\<close>; the one
  place of this file where the source does arithmetic that can overflow, the increment
  of \<open>Foreach\<close>'s loop counter, wraps around through \<open>wrap64\<close>.
\<close>

definition wrap64 :: "int \<Rightarrow> int" where
  "wrap64 i = (i + 2 ^ 63) mod 2 ^ 64 - 2 ^ 63"

definition isInt64 :: "int \<Rightarrow> bool" where
  "isInt64 i \<longleftrightarrow> - (2 ^ 63) \<le> i \<and> i < 2 ^ 63"

definition Star :: int where
  "Star = - 1"

type_synonym SequenceRange = "int \<times> int"

type_synonym SequenceSet = "SequenceRange list"

fun SequenceRange_Min :: "SequenceRange \<Rightarrow> int" where
  "SequenceRange_Min (r0, r1) =
     (if r0 = Star then r1
      else if r1 = Star then r0
      else if r0 \<le> r1 then r0 else r1)"

fun SequenceRange_Max :: "SequenceRange \<Rightarrow> int" where
  "SequenceRange_Max (r0, r1) =
     (if r1 = Star \<or> r0 = Star then Star
      else if r1 \<ge> r0 then r1 else r0)"

definition Append :: "SequenceSet \<Rightarrow> SequenceRange \<Rightarrow> SequenceSet" where
  "Append s rng = s @ [rng]"

text \<open>
  The callback of \<open>Foreach\<close> is a Go closure: it is given the state it works on and
  returns the new one with its error. The inner loop
  \<open>for i := localMin; i <= localMax; i++\<close> does not end when \<open>localMax\<close> is the largest
  \<open>int\<close>, so it is a partial function: \<open>None\<close> is a loop that never returns.
\<close>

partial_function (option) rangeLoop ::
  "(int \<Rightarrow> 's \<Rightarrow> error option \<times> 's) \<Rightarrow> int \<Rightarrow> int \<Rightarrow> 's \<Rightarrow> (error option \<times> 's) option"
where
  "rangeLoop callback i localMax st =
     (if i \<le> localMax then
        (case callback i st of
           (Some e, st') \<Rightarrow> Some (Some e, st')
         | (None, st') \<Rightarrow> rangeLoop callback (wrap64 (i + 1)) localMax st')
      else Some (None, st))"

fun Foreach ::
  "int \<Rightarrow> (int \<Rightarrow> 's \<Rightarrow> error option \<times> 's) \<Rightarrow> SequenceSet \<Rightarrow> 's \<Rightarrow> (error option \<times> 's) option"
where
  "Foreach maxv callback [] st = Some (None, st)"
| "Foreach maxv callback (rng # rest) st =
     (let localMin = SequenceRange_Min rng;
          localMax = SequenceRange_Max rng;
          localMin = (if localMin = Star then maxv else localMin);
          localMax = (if localMax = Star \<or> localMax > maxv then maxv else localMax)
      in case rangeLoop callback localMin localMax st of
           None \<Rightarrow> None
         | Some (Some e, st') \<Rightarrow> Some (Some e, st')
         | Some (None, st') \<Rightarrow> Foreach maxv callback rest st')"

section \<open>The parser state\<close>

text \<open>
  Strings are byte strings, as Go's are. The connection is part of the state: \<open>reader\<close>
  holds the bytes that the buffered reader \<open>p.r\<close> has yet to deliver (the peer sends them
  and then closes the connection), \<open>writer\<close> the chunks written so far through \<open>p.w\<close>.
  The fields \<open>literal\<close> and \<open>literalSize\<close> of the source are never read or written and
  are left out. \<open>pos\<close> never goes below zero and is a natural number.
\<close>

record Parser =
  writer :: "string list"
  reader :: string
  line :: string
  pos :: nat
  isEOL :: bool
  inSection :: bool
  listDepth :: int
  err :: "error option"

definition cr :: char where "cr = CHR 0x0D"
definition lf :: char where "lf = CHR 0x0A"
definition crlf :: string where "crlf = [cr, lf]"
definition backslash :: char where "backslash = CHR 0x5C"
definition dquote :: char where "dquote = CHR 0x22"

definition nul :: char where "nul = CHR 0x00"
definition ctl :: char where "ctl = CHR 0x20"
definition char_lim :: char where "char_lim = CHR 0x80"

definition NewParser :: "string \<Rightarrow> Parser" where
  "NewParser input =
     \<lparr>writer = [], reader = input, line = [], pos = 0, isEOL = True,
      inSection = False, listDepth = 0, err = None\<rparr>"

text \<open>
  \<open>atomSpecials\<close> is the table filled by \<open>init\<close>; the source indexes it only with
  bytes below \<open>char\<close>.
\<close>

definition atomSpecials :: "char \<Rightarrow> bool" where
  "atomSpecials c \<longleftrightarrow>
     c < ctl \<or>
     c \<in> set [CHR ''('', CHR '')'', CHR ''{'', CHR '' '', CHR ''%'', CHR ''*'', dquote,
                CHR ''['', backslash, CHR '']'', CHR 0x7F]"

definition Valid :: "Parser \<Rightarrow> bool" where
  "Valid p \<longleftrightarrow> err p = None"

definition Tail :: "Parser \<Rightarrow> string" where
  "Tail p = drop (pos p) (line p)"

definition available :: "Parser \<Rightarrow> nat" where
  "available p = length (Tail p)"

text \<open>
  \<open>bufio.Reader.ReadString('\n')\<close>: the bytes up to and including the first line feed,
  or everything that is left together with \<open>io.EOF\<close> when there is none. The result is
  the line, the error and what stays in the reader.
\<close>

definition ReadString_lf :: "string \<Rightarrow> string \<times> error option \<times> string" where
  "ReadString_lf s =
     (case dropWhile (\<lambda>c. c \<noteq> lf) s of
        [] \<Rightarrow> (s, Some EOF, [])
      | _ # rest \<Rightarrow> (takeWhile (\<lambda>c. c \<noteq> lf) s @ [lf], None, rest))"

definition readLine :: "Parser \<Rightarrow> Parser" where
  "readLine p =
     (case ReadString_lf (reader p) of
        (ln, e, rest) \<Rightarrow>
          let p1 = p\<lparr>pos := 0, line := ln, err := e, reader := rest\<rparr>
          in if length ln > 0 then p1\<lparr>isEOL := False\<rparr> else p1)"

definition DiscardLine :: "Parser \<Rightarrow> Parser" where
  "DiscardLine p = p\<lparr>err := None, isEOL := True\<rparr>"

definition ensure :: "nat \<Rightarrow> Parser \<Rightarrow> Parser" where
  "ensure ct p =
     (let p1 = (if isEOL p then readLine p else p)
      in if isEOL p \<and> \<not> Valid p1 then p1
         else if available p1 < ct then p1\<lparr>err := Some ErrLineTooShort\<rparr>
         else p1)"

text \<open>
  A panic of the source (\<open>advance\<close> beyond the input, an index out of range) is the result
  \<open>None\<close>. The count given to \<open>advance\<close> is a length, so \<open>ErrNegativeAdvance\<close> cannot arise.
\<close>

definition advance :: "nat \<Rightarrow> Parser \<Rightarrow> Parser option" where
  "advance n p = (if n > available p then None else Some (p\<lparr>pos := pos p + n\<rparr>))"

text \<open>
  \<open>strings.ToLower\<close> on bytes: the ASCII capitals are mapped to their small letters,
  every other byte stays. This is what Go does on ASCII strings; \<open>accept\<close> is called by
  this package with ASCII literals only.
\<close>

definition toLowerByte :: "char \<Rightarrow> char" where
  "toLowerByte c =
     (if CHR ''A'' \<le> c \<and> c \<le> CHR ''Z'' then char_of (of_char c + (32 :: nat)) else c)"

definition ToLower :: "string \<Rightarrow> string" where
  "ToLower s = map toLowerByte s"

definition accept :: "string \<Rightarrow> Parser \<Rightarrow> (bool \<times> Parser) option" where
  "accept s p =
     (if \<not> Valid p then Some (False, p)
      else
        let expected = ToLower s;
            l = length expected;
            p1 = ensure l p
        in if \<not> Valid p1 then
             Some (False, if err p1 = Some ErrLineTooShort then p1\<lparr>err := None\<rparr> else p1)
           else
             let actual = ToLower (take l (Tail p1))
             in if actual \<noteq> expected then Some (False, p1)
                else (case advance l p1 of
                        None \<Rightarrow> None
                      | Some p2 \<Rightarrow> Some (True, p2)))"

definition Expect :: "string \<Rightarrow> Parser \<Rightarrow> Parser option" where
  "Expect s p =
     (if \<not> Valid p then Some p
      else (case accept s p of
              None \<Rightarrow> None
            | Some (ok, p1) \<Rightarrow>
                if Valid p1 \<and> \<not> ok then
                  Some (p1\<lparr>err := Some (ExpectedError s (take (length s) (Tail p1)))\<rparr>)
                else Some p1))"

definition ReadSpace :: "Parser \<Rightarrow> Parser option" where
  "ReadSpace p = Expect '' '' p"

definition isValidDelimiter :: "Parser \<Rightarrow> char \<Rightarrow> bool" where
  "isValidDelimiter p c =
     (if c = CHR '' '' \<or> c = cr then True
      else if c = CHR '']'' then inSection p
      else if c = CHR '')'' then listDepth p > 0
      else False)"

definition Peek :: "Parser \<Rightarrow> char \<times> Parser" where
  "Peek p =
     (let p1 = ensure 1 p
      in if available p1 < 1 then (nul, p1) else (line p1 ! pos p1, p1))"

section \<open>Atoms and integers\<close>

lemma ensure_Valid_available: "Valid (ensure ct p) \<Longrightarrow> ct \<le> available (ensure ct p)"
  by (auto simp: ensure_def Valid_def Let_def split: if_splits)

lemma readLine_isEOL: "available (readLine p) > 0 \<Longrightarrow> \<not> isEOL (readLine p)"
  by (auto simp: readLine_def available_def Tail_def Let_def split: prod.splits if_splits)

lemma ensure_Valid_not_EOL: "Valid (ensure ct p) \<Longrightarrow> 0 < ct \<Longrightarrow> \<not> isEOL (ensure ct p)"
  using readLine_isEOL [of p]
  by (auto simp: ensure_def Valid_def Let_def split: if_splits)

lemma ensure_not_EOL_available: "\<not> isEOL p \<Longrightarrow> available (ensure ct p) = available p"
  by (simp add: ensure_def available_def Tail_def Let_def)

text \<open>
  The loop of \<open>ReadAtomWithExtra\<close>. It leaves either through the \<open>return ""\<close> after a
  failed \<open>ensure\<close> (\<open>Inl\<close>, with the state at that point) or through \<open>break\<close> (\<open>Inr\<close>,
  with \<open>data\<close>, \<open>n\<close>, \<open>flag\<close> and the state). \<open>data ! n\<close> is in range: a valid state
  after \<open>ensure (n + 1)\<close> has more than \<open>n\<close> bytes.
\<close>

function atomLoop ::
  "(char \<Rightarrow> bool) \<Rightarrow> nat \<Rightarrow> bool \<Rightarrow> Parser \<Rightarrow> Parser + (string \<times> nat \<times> bool \<times> Parser)"
where
  "atomLoop extra n flag p =
     (let p1 = ensure (n + 1) p
      in if \<not> Valid p1 then Inl p1
         else
           let data = Tail p1; c = data ! n
           in if c \<ge> char_lim \<or> (atomSpecials c \<and> \<not> extra c) then
                (if c = backslash \<and> n = 0 then atomLoop extra (n + 1) True p1
                 else if c = CHR ''*'' \<and> n = 1 \<and> flag then Inr (data, n + 1, flag, p1)
                 else Inr (data, n, flag, p1))
              else atomLoop extra (n + 1) flag p1)"
  by pat_completeness auto
termination
proof (relation "measure (\<lambda>(extra, n, flag, p). available (ensure (n + 1) p) - n)")
  show "wf (measure (\<lambda>(extra, n, flag, p). available (ensure (n + 1) p) - n))" by simp
next
  fix extra :: "char \<Rightarrow> bool" and n :: nat and flag :: bool and p p1 :: Parser
  assume "p1 = ensure (n + 1) p" "\<not> \<not> Valid p1"
  then have "n + 1 \<le> available p1" "\<not> isEOL p1"
    using ensure_Valid_available [of "n + 1" p] ensure_Valid_not_EOL [of "n + 1" p] by auto
  then have "available (ensure (n + 1 + 1) p1) - (n + 1) < available (ensure (n + 1) p) - n"
    using \<open>p1 = ensure (n + 1) p\<close> by (simp add: ensure_not_EOL_available)
  then show "((extra, n + 1, True, p1), extra, n, flag, p)
       \<in> measure (\<lambda>(extra, n, flag, p). available (ensure (n + 1) p) - n)"
    and "((extra, n + 1, flag, p1), extra, n, flag, p)
       \<in> measure (\<lambda>(extra, n, flag, p). available (ensure (n + 1) p) - n)"
    by simp_all
qed

declare atomLoop.simps [simp del]

text \<open>
  \<open>normalize\<close> works on bytes with bit masks. Its first loop (\<open>needsChange\<close>) looks for a
  letter in the wrong case, the second (\<open>rewrite\<close>) builds the copy; both run over the
  bytes \<open>cs\<close> that are left, at index \<open>i\<close> of \<open>atom\<close>, with the current \<open>want\<close>.
\<close>

definition byte :: "char \<Rightarrow> 8 word" where
  "byte c = of_char c"

definition chr :: "8 word \<Rightarrow> char" where
  "chr b = char_of (unat b)"

fun needsChange :: "string \<Rightarrow> nat \<Rightarrow> 8 word \<Rightarrow> string \<Rightarrow> bool" where
  "needsChange atom i want [] = False"
| "needsChange atom i want (c # cs) =
     (let have = byte c AND 0x20; c' = byte c AND 0xDF
      in if byte CHR ''A'' \<le> c' \<and> c' \<le> byte CHR ''Z'' \<and> have \<noteq> want then True
         else if i = 1 \<and> atom ! 0 = backslash then needsChange atom (i + 1) 0x20 cs
         else needsChange atom (i + 1) want cs)"

fun rewrite :: "string \<Rightarrow> nat \<Rightarrow> 8 word \<Rightarrow> string \<Rightarrow> string" where
  "rewrite atom i want [] = []"
| "rewrite atom i want (c # cs) =
     (let c' = byte c AND 0xDF;
          b = (if byte CHR ''A'' \<le> c' \<and> c' \<le> byte CHR ''Z'' then chr (c' OR want) else atom ! i);
          want' = (if i = 1 \<and> atom ! 0 = backslash then 0x20 else want)
      in b # rewrite atom (i + 1) want' cs)"

definition normalizeAtom :: "string \<Rightarrow> string" where
  "normalizeAtom atom = (if needsChange atom 0 0 atom then rewrite atom 0 0 atom else atom)"

definition ReadAtomWithExtra :: "(char \<Rightarrow> bool) \<Rightarrow> Parser \<Rightarrow> (string \<times> Parser) option" where
  "ReadAtomWithExtra extra p =
     (case atomLoop extra 0 False p of
        Inl p1 \<Rightarrow> Some ('''', p1)
      | Inr (data, n, flag, p1) \<Rightarrow>
          if n < 2 \<and> (n = 0 \<or> flag) then
            Some ('''', p1\<lparr>err := Some (InvalidTokenError ''atom'' nul data)\<rparr>)
          else if n \<ge> length data then None
          else if \<not> isValidDelimiter p1 (data ! n) then
            Some ('''', p1\<lparr>err := Some (InvalidTokenError ''atom'' (data ! n) data)\<rparr>)
          else
            let bytes = take n data;
                norm = normalizeAtom bytes;
                bytes = (if flag then norm else bytes)
            in (case advance n p1 of
                  None \<Rightarrow> None
                | Some p2 \<Rightarrow> Some (bytes, p2)))"

definition ReadAtom :: "Parser \<Rightarrow> (string \<times> Parser) option" where
  "ReadAtom p = ReadAtomWithExtra (\<lambda>c. False) p"

text \<open>
  \<open>strconv.Atoi\<close> on a string of decimal digits, the only strings \<open>ReadInt\<close> gives it:
  the value, or a range error above the largest 64-bit integer. \<open>strconv.Itoa\<close> is
  applied to the integers \<open>ReadInt\<close> returns, which are not negative.
\<close>

definition digitValue :: "char \<Rightarrow> int" where
  "digitValue c = of_char c - of_char CHR ''0''"

definition decimal :: "string \<Rightarrow> int" where
  "decimal s = foldl (\<lambda>a c. 10 * a + digitValue c) 0 s"

definition Atoi :: "string \<Rightarrow> error + int" where
  "Atoi s = (if decimal s > 2 ^ 63 - 1 then Inl (NumError s) else Inr (decimal s))"

text \<open>
  The loop of \<open>ReadInt\<close>. \<open>data\<close> is the tail taken before the first \<open>ensure\<close> and never
  refreshed: when \<open>ensure\<close> loads a new line, the digits are still looked up in the old
  tail, and \<open>data[n]\<close> panics when the old tail is too short.
\<close>

function intLoop :: "string \<Rightarrow> nat \<Rightarrow> Parser \<Rightarrow> (Parser + nat \<times> Parser) option" where
  "intLoop data n p =
     (let p1 = ensure (n + 1) p
      in if \<not> Valid p1 then Some (Inl p1)
         else if n \<ge> length data then None
         else
           let c = data ! n
           in if c < CHR ''0'' \<or> c > CHR ''9'' then Some (Inr (n, p1))
              else intLoop data (n + 1) p1)"
  by pat_completeness auto
termination
proof (relation "measure (\<lambda>(data, n, p). available (ensure (n + 1) p) - n)")
  show "wf (measure (\<lambda>(data, n, p). available (ensure (n + 1) p) - n))" by simp
next
  fix data :: string and n :: nat and p p1 :: Parser
  assume "p1 = ensure (n + 1) p" "\<not> \<not> Valid p1"
  then have "n + 1 \<le> available p1" "\<not> isEOL p1"
    using ensure_Valid_available [of "n + 1" p] ensure_Valid_not_EOL [of "n + 1" p] by auto
  then have "available (ensure (n + 1 + 1) p1) - (n + 1) < available (ensure (n + 1) p) - n"
    using \<open>p1 = ensure (n + 1) p\<close> by (simp add: ensure_not_EOL_available)
  then show "((data, n + 1, p1), data, n, p)
       \<in> measure (\<lambda>(data, n, p). available (ensure (n + 1) p) - n)"
    by simp
qed

declare intLoop.simps [simp del]

definition ReadInt :: "Parser \<Rightarrow> (int \<times> Parser) option" where
  "ReadInt p =
     (let data = Tail p
      in case intLoop data 0 p of
           None \<Rightarrow> None
         | Some (Inl p1) \<Rightarrow> Some (0, p1)
         | Some (Inr (n, p1)) \<Rightarrow>
             if n < 1 then Some (0, p1\<lparr>err := Some (InvalidTokenError ''integer'' nul data)\<rparr>)
             else
               (case Atoi (take n data) of
                  Inl e \<Rightarrow> Some (0, p1\<lparr>err := Some e\<rparr>)
                | Inr i \<Rightarrow>
                    (case advance n p1 of
                       None \<Rightarrow> None
                     | Some p2 \<Rightarrow> if \<not> Valid p2 then Some (0, p2) else Some (i, p2))))"

section \<open>Quoted strings, literals and strings\<close>

text \<open>
  \<open>slice s lo hi\<close> is Go's \<open>s[lo:hi]\<close>; at each use below \<open>lo \<le> hi \<le> len(s)\<close>.
  The loop of \<open>ReadQuotedString\<close> returns early (\<open>Inl\<close>) or leaves through
  \<open>break Parse\<close> (\<open>Inr\<close>); \<open>data[n+1]\<close> after a backslash is guarded by \<open>ensure(n + 1)\<close>
  only and panics when the backslash is the last byte of the line.
\<close>

lemma loop_step_measure:
  assumes "Valid (ensure (Suc n) p)"
  shows "available (ensure (Suc (Suc n)) (ensure (Suc n) p)) - Suc n
           < available (ensure (Suc n) p) - n"
proof -
  have "Suc n \<le> available (ensure (Suc n) p)" "\<not> isEOL (ensure (Suc n) p)"
    using assms ensure_Valid_available [of "Suc n" p] ensure_Valid_not_EOL [of "Suc n" p]
    by auto
  then show ?thesis by (simp add: ensure_not_EOL_available)
qed

lemma loop_step2_measure:
  assumes "Valid (ensure (Suc n) p)" and "Valid (ensure (Suc n) (ensure (Suc n) p))"
  shows "available (ensure (Suc (Suc (Suc n))) (ensure (Suc n) (ensure (Suc n) p))) - Suc (Suc n)
           < available (ensure (Suc n) p) - n"
proof -
  have a: "Suc n \<le> available (ensure (Suc n) p)" "\<not> isEOL (ensure (Suc n) p)"
    using assms ensure_Valid_available [of "Suc n" p] ensure_Valid_not_EOL [of "Suc n" p]
    by auto
  have "\<not> isEOL (ensure (Suc n) (ensure (Suc n) p))"
    using assms(2) ensure_Valid_not_EOL [of "Suc n" "ensure (Suc n) p"] by simp
  then show ?thesis using a by (simp add: ensure_not_EOL_available)
qed

definition slice :: "string \<Rightarrow> nat \<Rightarrow> nat \<Rightarrow> string" where
  "slice s lo hi = take (hi - lo) (drop lo s)"

function quotedLoop ::
  "nat \<Rightarrow> nat \<Rightarrow> string \<Rightarrow> Parser \<Rightarrow> (Parser + (string \<times> nat \<times> nat \<times> string \<times> Parser)) option"
where
  "quotedLoop n lastEscape buf p =
     (let p1 = ensure (n + 1) p
      in if \<not> Valid p1 then Some (Inl p1)
         else
           let data = Tail p1; c = data ! n
           in if c = backslash then
                (let p2 = ensure (n + 1) p1
                 in if \<not> Valid p2 then Some (Inl p2)
                    else if n + 1 \<ge> length data then None
                    else if data ! (n + 1) = backslash \<or> data ! (n + 1) = dquote then
                      quotedLoop (n + 1 + 1) (n + 1) (buf @ slice data lastEscape n) p2
                    else
                      Some (Inl (p2\<lparr>err :=
                        Some (InvalidTokenError ''quoted string'' (data ! (n + 1)) data)\<rparr>)))
              else if c = dquote then Some (Inr (data, n, lastEscape, buf, p1))
              else quotedLoop (n + 1) lastEscape buf p1)"
  by pat_completeness auto
termination
  by (relation "measure (\<lambda>(n, lastEscape, buf, p). available (ensure (n + 1) p) - n)")
     (simp_all add: loop_step_measure loop_step2_measure)

declare quotedLoop.simps [simp del]

definition ReadQuotedString :: "Parser \<Rightarrow> (string \<times> Parser) option" where
  "ReadQuotedString p =
     (case Peek p of
        (c, p0) \<Rightarrow>
          if c \<noteq> dquote then
            Some ('''', p0\<lparr>err := Some (TypeMismatchError ''quoted string'' (Tail p0))\<rparr>)
          else
            let p1 = ensure 2 p0
            in if \<not> Valid p1 then Some ('''', p1)
               else
                 (case quotedLoop 1 1 [] p1 of
                    None \<Rightarrow> None
                  | Some (Inl p2) \<Rightarrow> Some ('''', p2)
                  | Some (Inr (data, n, lastEscape, buf, p2)) \<Rightarrow>
                     if data ! n \<noteq> dquote then
                       Some ('''', p2\<lparr>err :=
                         Some (InvalidTokenError ''quoted string'' (data ! n) data)\<rparr>)
                     else
                       let n = n + 1
                       in if n \<ge> length data then None
                          else if \<not> isValidDelimiter p2 (data ! n) then
                            Some ('''', p2\<lparr>err :=
                              Some (InvalidTokenError ''atom'' (data ! n) data)\<rparr>)
                          else
                            (case advance n p2 of
                               None \<Rightarrow> None
                             | Some p3 \<Rightarrow> Some (buf @ slice data lastEscape (n - 1), p3))))"

definition ReadLiteralPrefix :: "Parser \<Rightarrow> ((int \<times> bool) \<times> Parser) option" where
  "ReadLiteralPrefix p =
     do {
       p1 \<leftarrow> Expect ''{'' p;
       (sz, p2) \<leftarrow> ReadInt p1;
       (plus, p3) \<leftarrow> accept ''+'' p2;
       p4 \<leftarrow> Expect (''}'' @ crlf) p3;
       Some ((sz, \<not> plus), p4)
     }"

text \<open>
  \<open>Continuation\<close> of the connection writes one chunk, \<open>"+ " msg "\r\n"\<close>, to the peer.
  \<open>ReadLiteralStream\<close> returns \<open>nil\<close> or \<open>io.LimitReader(p.r, size)\<close>, a reader that
  has not yet read anything: the result is its limit. \<open>ReadAll_LimitReader\<close> is
  \<open>ioutil.ReadAll\<close> on that reader: it takes the next \<open>size\<close> bytes of \<open>p.r\<close>, fewer
  when the peer closes before, and reports no error for that.
\<close>

definition Continuation :: "string \<Rightarrow> Parser \<Rightarrow> Parser" where
  "Continuation msg p = p\<lparr>writer := writer p @ [''+ '' @ msg @ crlf]\<rparr>"

definition ReadLiteralStream :: "Parser \<Rightarrow> (int option \<times> Parser) option" where
  "ReadLiteralStream p =
     do {
       ((sz, sync), p1) \<leftarrow> ReadLiteralPrefix p;
       if \<not> Valid p1 then Some (None, p1)
       else
         let p2 = (if sync then Continuation ''ready'' p1 else p1)
         in Some (Some sz, p2\<lparr>isEOL := True\<rparr>)
     }"

definition ReadAll_LimitReader :: "int \<Rightarrow> Parser \<Rightarrow> string \<times> Parser" where
  "ReadAll_LimitReader sz p =
     (take (nat sz) (reader p), p\<lparr>reader := drop (nat sz) (reader p)\<rparr>)"

definition ReadLiteral :: "Parser \<Rightarrow> (string \<times> Parser) option" where
  "ReadLiteral p =
     do {
       (stream, p1) \<leftarrow> ReadLiteralStream p;
       if \<not> Valid p1 then Some ('''', p1)
       else
         (case stream of
            None \<Rightarrow> None
          | Some sz \<Rightarrow> Some (ReadAll_LimitReader sz p1))
     }"

definition ReadStringWithExtra :: "(char \<Rightarrow> bool) \<Rightarrow> Parser \<Rightarrow> (string \<times> Parser) option" where
  "ReadStringWithExtra extra p =
     (case Peek p of
        (c, p1) \<Rightarrow>
          if \<not> Valid p1 then Some ('''', p1)
          else if c = CHR ''{'' then ReadLiteral p1
          else if c = dquote then ReadQuotedString p1
          else ReadAtomWithExtra extra p1)"

definition ReadString :: "Parser \<Rightarrow> (string \<times> Parser) option" where
  "ReadString p = ReadStringWithExtra (\<lambda>c. False) p"

definition ReadAstring :: "Parser \<Rightarrow> (string \<times> Parser) option" where
  "ReadAstring p = ReadStringWithExtra (\<lambda>c. c = CHR '']'') p"

definition ReadListMailbox :: "Parser \<Rightarrow> (string \<times> Parser) option" where
  "ReadListMailbox p = ReadStringWithExtra (\<lambda>c. c = CHR ''%'' \<or> c = CHR ''*'') p"

definition ReadEOL :: "Parser \<Rightarrow> Parser option" where
  "ReadEOL p =
     do {
       p1 \<leftarrow> Expect crlf p;
       Some (if Valid p1 then p1\<lparr>isEOL := True\<rparr> else p1)
     }"

section \<open>Lists\<close>

definition ReadListStart :: "Parser \<Rightarrow> Parser option" where
  "ReadListStart p =
     do {
       p1 \<leftarrow> Expect ''('' p;
       Some (if \<not> Valid p1 then p1 else p1\<lparr>listDepth := listDepth p1 + 1\<rparr>)
     }"

definition ReadListEnd :: "Parser \<Rightarrow> Parser option" where
  "ReadListEnd p =
     do {
       p1 \<leftarrow> Expect '')'' p;
       Some (if \<not> Valid p1 then p1 else p1\<lparr>listDepth := listDepth p1 - 1\<rparr>)
     }"

text \<open>
  The loop of \<open>ReadList\<close> runs as long as the token reader succeeds. It is given fuel,
  one unit for each turn: \<open>None\<close> is a panic or the end of the fuel. The list returned
  is \<open>None\<close> for Go's \<open>nil\<close>.
\<close>

fun ReadList_loop ::
  "nat \<Rightarrow> (Parser \<Rightarrow> (string \<times> Parser) option) \<Rightarrow> string list \<Rightarrow> Parser
     \<Rightarrow> (string list option \<times> Parser) option"
where
  "ReadList_loop 0 tokenReader list p = None"
| "ReadList_loop (Suc fuel) tokenReader list p =
     do {
       (atom, p1) \<leftarrow> tokenReader p;
       if \<not> Valid p1 then
         do {
           p2 \<leftarrow> ReadListEnd (p1\<lparr>err := None\<rparr>);
           if \<not> Valid p2 then Some (None, p2) else Some (Some list, p2)
         }
       else
         do {
           p2 \<leftarrow> ReadSpace p1;
           ReadList_loop fuel tokenReader (list @ [atom]) p2
         }
     }"

definition ReadList ::
  "nat \<Rightarrow> (Parser \<Rightarrow> (string \<times> Parser) option) \<Rightarrow> Parser \<Rightarrow> (string list option \<times> Parser) option"
where
  "ReadList fuel tokenReader p =
     do {
       p1 \<leftarrow> ReadListStart p;
       if \<not> Valid p1 then Some (None, p1)
       else ReadList_loop fuel tokenReader [] p1
     }"

definition ReadAtomList :: "nat \<Rightarrow> Parser \<Rightarrow> (string list option \<times> Parser) option" where
  "ReadAtomList fuel p = ReadList fuel ReadAtom p"

definition readStringList :: "nat \<Rightarrow> Parser \<Rightarrow> (string list option \<times> Parser) option" where
  "readStringList fuel p = ReadList fuel ReadString p"

section \<open>Parsing sequence sets\<close>

text \<open>
  \<open>remaining\<close> counts the bytes the parser has not consumed yet: those still in the
  reader and, unless the line is finished, the rest of the line. No operation makes it
  grow, which is why the loops over tokens end.
\<close>

definition remaining :: "Parser \<Rightarrow> nat" where
  "remaining p = length (reader p) + (if isEOL p then 0 else available p)"

lemma ReadString_lf_length:
  "ReadString_lf s = (ln, e, rest) \<Longrightarrow> length ln + length rest = length s"
proof -
  have "length (takeWhile (\<lambda>c. c \<noteq> lf) s) + length (dropWhile (\<lambda>c. c \<noteq> lf) s) = length s"
    by (metis length_append takeWhile_dropWhile_id)
  then show "ReadString_lf s = (ln, e, rest) \<Longrightarrow> length ln + length rest = length s"
    by (auto simp: ReadString_lf_def split: list.splits)
qed

lemma remaining_readLine: "isEOL p \<Longrightarrow> remaining (readLine p) = remaining p"
  by (auto simp: remaining_def readLine_def available_def Tail_def Let_def
           dest: ReadString_lf_length split: prod.splits)

lemma remaining_ensure: "remaining (ensure ct p) = remaining p"
  using remaining_readLine [of p]
  by (auto simp: ensure_def Let_def) (auto simp: remaining_def available_def Tail_def)

lemma remaining_err_update [simp]: "remaining (p\<lparr>err := e\<rparr>) = remaining p"
  by (simp add: remaining_def available_def Tail_def)

lemma advance_remaining: "advance n p = Some p' \<Longrightarrow> remaining p' \<le> remaining p"
  by (auto simp: advance_def remaining_def available_def Tail_def split: if_splits)

lemma advance_remaining_less:
  "advance n p = Some p' \<Longrightarrow> \<not> isEOL p \<Longrightarrow> 0 < n \<Longrightarrow> remaining p' < remaining p"
  by (auto simp: advance_def remaining_def available_def Tail_def split: if_splits)

lemma accept_remaining:
  assumes "accept s p = Some (b, p')"
  shows "remaining p' \<le> remaining p \<and> (b \<and> s \<noteq> [] \<longrightarrow> remaining p' < remaining p)"
proof (cases "Valid p")
  case False
  with assms show ?thesis by (simp add: accept_def)
next
  case True
  define q where "q = ensure (length s) p"
  have rq: "remaining q = remaining p" by (simp add: q_def remaining_ensure)
  show ?thesis
  proof (cases "Valid q")
    case False
    with assms True have "\<not> b" "remaining p' = remaining q"
      by (auto simp: accept_def Let_def ToLower_def q_def split: if_splits)
    with rq show ?thesis by simp
  next
    case vq: True
    show ?thesis
    proof (cases "ToLower (take (length s) (Tail q)) = ToLower s")
      case False
      with assms True vq have "\<not> b" "p' = q"
        by (auto simp: accept_def Let_def ToLower_def q_def split: if_splits)
      with rq show ?thesis by simp
    next
      case m: True
      with assms True vq have adv: "advance (length s) q = Some p'"
        by (auto simp: accept_def Let_def ToLower_def q_def split: if_splits option.splits)
      have "s \<noteq> [] \<Longrightarrow> \<not> isEOL q"
        using vq ensure_Valid_not_EOL [of "length s" p] by (simp add: q_def)
      then show ?thesis
        using advance_remaining [OF adv] advance_remaining_less [OF adv] rq by auto
    qed
  qed
qed

lemma intLoop_Inl:
  "intLoop data n p = Some (Inl p') \<Longrightarrow> remaining p' = remaining p \<and> \<not> Valid p'"
proof (induction data n p rule: intLoop.induct)
  case (1 data n p)
  show ?case
  proof (cases "Valid (ensure (n + 1) p)")
    case False
    then have "p' = ensure (n + 1) p"
      using "1.prems" intLoop.simps [of data n p] by (simp add: Let_def)
    then show ?thesis using False remaining_ensure [of "n + 1" p] by simp
  next
    case True
    then have c: "n < length data" "\<not> (data ! n < CHR ''0'' \<or> data ! n > CHR ''9'')"
      and r: "intLoop data (n + 1) (ensure (n + 1) p) = Some (Inl p')"
      using "1.prems" intLoop.simps [of data n p] by (auto simp: Let_def split: if_splits)
    have "remaining p' = remaining (ensure (n + 1) p) \<and> \<not> Valid p'"
      using "1.IH" [OF refl _ _ refl _ r] True c by (simp add: not_le)
    then show ?thesis using remaining_ensure [of "n + 1" p] by simp
  qed
qed

lemma intLoop_Inr:
  "intLoop data n p = Some (Inr (m, p')) \<Longrightarrow>
     remaining p' = remaining p \<and> Valid p' \<and> \<not> isEOL p' \<and> m < available p'"
proof (induction data n p rule: intLoop.induct)
  case (1 data n p)
  have v: "Valid (ensure (n + 1) p)" and l: "n < length data"
    using "1.prems" intLoop.simps [of data n p] by (auto simp: Let_def split: if_splits)
  show ?case
  proof (cases "data ! n < CHR ''0'' \<or> data ! n > CHR ''9''")
    case False
    then have r: "intLoop data (n + 1) (ensure (n + 1) p) = Some (Inr (m, p'))"
      using "1.prems" intLoop.simps [of data n p] v l by (simp add: Let_def)
    have "remaining p' = remaining (ensure (n + 1) p) \<and> Valid p' \<and> \<not> isEOL p' \<and> m < available p'"
      using "1.IH" [OF refl _ _ refl _ r] v l False by (simp add: not_le)
    then show ?thesis using remaining_ensure [of "n + 1" p] by simp
  next
    case True
    then have "m = n" "p' = ensure (n + 1) p"
      using "1.prems" intLoop.simps [of data n p] v l by (auto simp: Let_def)
    then show ?thesis
      using v remaining_ensure [of "n + 1" p] ensure_Valid_available [of "n + 1" p]
        ensure_Valid_not_EOL [of "n + 1" p]
      by auto
  qed
qed

lemma ReadInt_remaining:
  assumes "ReadInt p = Some (i, p')"
  shows "remaining p' \<le> remaining p \<and> (Valid p' \<longrightarrow> remaining p' < remaining p)"
proof (cases "intLoop (Tail p) 0 p")
  case None
  with assms show ?thesis by (simp add: ReadInt_def)
next
  case (Some r)
  show ?thesis
  proof (cases r)
    case (Inl p1)
    with Some assms have "p' = p1"
      by (simp add: ReadInt_def)
    then show ?thesis using intLoop_Inl [of "Tail p" 0 p p1] Some Inl by simp
  next
    case (Inr np)
    obtain n p1 where np: "np = (n, p1)" by (cases np)
    have f: "remaining p1 = remaining p" "Valid p1" "\<not> isEOL p1" "n < available p1"
      using intLoop_Inr [of "Tail p" 0 p n p1] Some Inr np by auto
    have eq: "ReadInt p =
        (if n < 1 then Some (0, p1\<lparr>err := Some (InvalidTokenError ''integer'' nul (Tail p))\<rparr>)
         else (case Atoi (take n (Tail p)) of
                 Inl e \<Rightarrow> Some (0, p1\<lparr>err := Some e\<rparr>)
               | Inr i \<Rightarrow>
                   (case advance n p1 of
                      None \<Rightarrow> None
                    | Some p2 \<Rightarrow> if \<not> Valid p2 then Some (0, p2) else Some (i, p2))))"
      by (simp add: ReadInt_def Some Inr np Let_def)
    show ?thesis
    proof (cases "n < 1")
      case True
      with eq assms have "p' = p1\<lparr>err := Some (InvalidTokenError ''integer'' nul (Tail p))\<rparr>"
        by simp
      then show ?thesis using f(1) by (simp add: Valid_def)
    next
      case n1: False
      show ?thesis
      proof (cases "Atoi (take n (Tail p))")
        case (Inl e)
        with eq assms n1 have "p' = p1\<lparr>err := Some e\<rparr>" by simp
        then show ?thesis using f(1) by (simp add: Valid_def)
      next
        case (Inr j)
        with eq assms n1 obtain p2 where adv: "advance n p1 = Some p2" and "p' = p2"
          by (cases "advance n p1") (auto split: if_splits)
        then show ?thesis
          using advance_remaining_less [OF adv f(3)] n1 f(1) by simp
      qed
    qed
  qed
qed

text \<open>
  \<open>readSequenceRange\<close> reads its two sequence numbers with the same statements, written
  out twice in the source; \<open>readSeqNumber\<close> is that block.
\<close>

definition readSeqNumber :: "Parser \<Rightarrow> (int \<times> Parser) option" where
  "readSeqNumber p =
     do {
       (star, p1) \<leftarrow> accept ''*'' p;
       if star then Some (Star, p1)
       else do {
         (i, p2) \<leftarrow> ReadInt p1;
         Some (i, if i < 1 then p2\<lparr>err := Some ErrSeqNoOutOfBounds\<rparr> else p2)
       }
     }"

definition readSequenceRange :: "Parser \<Rightarrow> (SequenceRange \<times> Parser) option" where
  "readSequenceRange p =
     do {
       (first, p1) \<leftarrow> readSeqNumber p;
       (colon, p2) \<leftarrow> accept '':'' p1;
       if \<not> colon then Some ((first, first), p2)
       else if \<not> Valid p2 then Some ((0, 0), p2)
       else do {
         (second, p3) \<leftarrow> readSeqNumber p2;
         if \<not> Valid p3 then Some ((0, 0), p3)
         else Some ((first, second), p3)
       }
     }"

lemma readSeqNumber_remaining:
  assumes "readSeqNumber p = Some (v, p')"
  shows "remaining p' \<le> remaining p"
proof -
  from assms obtain star p1 where 1: "accept ''*'' p = Some (star, p1)"
    and 2: "(if star then Some (Star, p1)
             else do {
               (i, p2) \<leftarrow> ReadInt p1;
               Some (i, if i < 1 then p2\<lparr>err := Some ErrSeqNoOutOfBounds\<rparr> else p2)
             }) = Some (v, p')"
    unfolding readSeqNumber_def by (cases "accept ''*'' p") auto
  show ?thesis
  proof (cases star)
    case True
    with 2 accept_remaining [OF 1] show ?thesis by simp
  next
    case False
    with 2 obtain i q where "ReadInt p1 = Some (i, q)" "remaining p' = remaining q"
      by (cases "ReadInt p1") (auto split: if_splits)
    then show ?thesis using ReadInt_remaining [of p1 i q] accept_remaining [OF 1] by simp
  qed
qed

lemma readSequenceRange_remaining:
  assumes "readSequenceRange p = Some (rng, p')"
  shows "remaining p' \<le> remaining p"
proof -
  from assms obtain first p1 where 1: "readSeqNumber p = Some (first, p1)"
    and 2: "do {
       (colon, p2) \<leftarrow> accept '':'' p1;
       if \<not> colon then Some ((first, first), p2)
       else if \<not> Valid p2 then Some ((0, 0), p2)
       else do {
         (second, p3) \<leftarrow> readSeqNumber p2;
         if \<not> Valid p3 then Some ((0, 0), p3)
         else Some ((first, second), p3)
       }
     } = Some (rng, p')"
    unfolding readSequenceRange_def by (cases "readSeqNumber p") auto
  from 2 obtain colon p2 where 3: "accept '':'' p1 = Some (colon, p2)"
    and 4: "(if \<not> colon then Some ((first, first), p2)
       else if \<not> Valid p2 then Some ((0, 0), p2)
       else do {
         (second, p3) \<leftarrow> readSeqNumber p2;
         if \<not> Valid p3 then Some ((0, 0), p3)
         else Some ((first, second), p3)
       }) = Some (rng, p')"
    by (cases "accept '':'' p1") auto
  have a: "remaining p2 \<le> remaining p"
    using readSeqNumber_remaining [OF 1] accept_remaining [OF 3] by simp
  show ?thesis
  proof (cases "\<not> colon \<or> \<not> Valid p2")
    case True
    with 4 a show ?thesis by (auto split: if_splits)
  next
    case False
    with 4 obtain second p3 where 5: "readSeqNumber p2 = Some (second, p3)" and "p' = p3"
      by (cases "readSeqNumber p2") (auto split: if_splits)
    then show ?thesis using a readSeqNumber_remaining [OF 5] by simp
  qed
qed

function ReadSequenceSet_loop :: "SequenceSet \<Rightarrow> Parser \<Rightarrow> (SequenceSet \<times> Parser) option" where
  "ReadSequenceSet_loop sset p =
     (case readSequenceRange p of
        None \<Rightarrow> None
      | Some (rng, p1) \<Rightarrow>
          if \<not> Valid p1 then Some (sset, p1)
          else
            (case accept '','' p1 of
               None \<Rightarrow> None
             | Some (comma, p2) \<Rightarrow>
                 if \<not> comma then Some (Append sset rng, p2)
                 else ReadSequenceSet_loop (Append sset rng) p2))"
  by pat_completeness auto
termination
proof (relation "measure (\<lambda>(sset, p). remaining p)", goal_cases)
  case 1
  show ?case by simp
next
  case (2 sset p x rng p1 y comma p2)
  then have "remaining p1 \<le> remaining p" "remaining p2 < remaining p1"
    using readSequenceRange_remaining [of p rng p1] accept_remaining [of "'',''" p1 comma p2]
    by auto
  then show ?case by simp
qed

declare ReadSequenceSet_loop.simps [simp del]

definition ReadSequenceSet :: "Parser \<Rightarrow> (SequenceSet \<times> Parser) option" where
  "ReadSequenceSet p = ReadSequenceSet_loop [] p"

section \<open>Body sections of FETCH\<close>

text \<open>
  \<open>bodyFetchMode\<close> is a string type; a \<open>*BodyFetchAttribute\<close> that is \<open>nil\<close> is \<open>None\<close>,
  and so is a \<open>nil\<close> header list.
\<close>

definition FetchAll :: string where "FetchAll = ''''"
definition FetchText :: string where "FetchText = ''TEXT''"
definition FetchHeader :: string where "FetchHeader = ''HEADER''"
definition FetchHeaderFields :: string where "FetchHeaderFields = ''HEADER.FIELDS''"
definition FetchHeaderFieldsNot :: string where "FetchHeaderFieldsNot = ''HEADER.FIELDS.NOT''"

record BodyFetchAttribute =
  fa_peek :: bool
  fa_part :: string
  fa_mode :: string
  fa_headerList :: "string list option"
  fa_hasPartial :: bool
  fa_partial :: "int \<times> int"

function udecimal :: "nat \<Rightarrow> string" where
  "udecimal n =
     (if n < 10 then [char_of (of_char CHR ''0'' + n)]
      else udecimal (n div 10) @ [char_of (of_char CHR ''0'' + n mod 10)])"
  by pat_completeness auto
termination
  by (relation "measure id") auto

declare udecimal.simps [simp del]

definition Itoa :: "int \<Rightarrow> string" where
  "Itoa i = (if i < 0 then CHR ''-'' # udecimal (nat (- i)) else udecimal (nat i))"

lemma remaining_Peek: "Peek p = (c, p') \<Longrightarrow> remaining p' = remaining p"
  using remaining_ensure [of 1 p] by (auto simp: Peek_def Let_def split: if_splits)

text \<open>
  The loop over the part number of \<open>ReadBodyAttribute\<close>: \<open>Inl\<close> is its \<open>return nil\<close>,
  \<open>Inr\<close> its \<open>break\<close> with the part read so far.
\<close>

function partLoop :: "string \<Rightarrow> bool \<Rightarrow> Parser \<Rightarrow> (Parser + (string \<times> Parser)) option" where
  "partLoop part num p =
     (case Peek p of
        (c, p1) \<Rightarrow>
          if \<not> Valid p1 then Some (Inl p1)
          else if c \<ge> CHR ''1'' \<and> c \<le> CHR ''9'' then
            (case ReadInt p1 of
               None \<Rightarrow> None
             | Some (i, p2) \<Rightarrow>
                 if \<not> Valid p2 then Some (Inl p2)
                 else partLoop ((if length part > 0 then part @ ''.'' else part) @ Itoa i) True p2)
          else if c = CHR ''.'' \<and> num then partLoop part False p1
          else Some (Inr (part, p1)))"
  by pat_completeness auto
termination
proof (relation "measures [\<lambda>(part, num, p). remaining p, \<lambda>(part, num, p). if num then 1 else 0]",
    goal_cases)
  case 1
  show ?case by simp
next
  case (2 part num p c p1 x i p2)
  then have "remaining p1 = remaining p" "remaining p2 < remaining p1"
    using remaining_Peek [of p c p1] ReadInt_remaining [of p1 i p2] by auto
  then show ?case by simp
next
  case (3 part num p c p1)
  then have "remaining p1 = remaining p"
    using remaining_Peek [of p c p1] by auto
  with 3 show ?case by simp
qed

declare partLoop.simps [simp del]

definition readBodyAttributeStart :: "Parser \<Rightarrow> (bool \<times> Parser) option" where
  "readBodyAttributeStart p =
     do {
       p1 \<leftarrow> Expect ''BODY'' p;
       (peek, p2) \<leftarrow> accept ''.PEEK'' p1;
       p3 \<leftarrow> Expect ''['' p2;
       Some (peek, p3\<lparr>inSection := True\<rparr>)
     }"

definition readBodyAttributePartial :: "Parser \<Rightarrow> ((int \<times> int) \<times> Parser) option" where
  "readBodyAttributePartial p =
     do {
       p1 \<leftarrow> Expect ''<'' p;
       (first, p2) \<leftarrow> ReadInt p1;
       p3 \<leftarrow> Expect ''.'' p2;
       (second, p4) \<leftarrow> ReadInt p3;
       p5 \<leftarrow> Expect ''>'' p4;
       Some ((first, second), p5)
     }"

definition readBodyAttributeEnd :: "Parser \<Rightarrow> ((bool \<times> (int \<times> int)) \<times> Parser) option" where
  "readBodyAttributeEnd p =
     do {
       p1 \<leftarrow> Expect '']'' p;
       if \<not> Valid p1 then Some ((False, (0, 0)), p1)
       else
         (case Peek (p1\<lparr>inSection := False\<rparr>) of
            (c, p2) \<Rightarrow>
              if c = CHR ''<'' then
                do {
                  (rng, p3) \<leftarrow> readBodyAttributePartial p2;
                  Some ((True, rng), p3)
                }
              else Some ((False, (0, 0)), p2))
     }"

text \<open>
  The \<open>switch\<close> on the mode of \<open>ReadBodyAttribute\<close>: the attribute with its mode (and
  header list) and the state, or \<open>None\<close> with the state where the source returns \<open>nil\<close>.
  The fuel is that of the header list.
\<close>

definition readBodyMode ::
  "nat \<Rightarrow> BodyFetchAttribute \<Rightarrow> Parser \<Rightarrow> (BodyFetchAttribute option \<times> Parser) option"
where
  "readBodyMode fuel fa p =
     do {
       (mode, p1) \<leftarrow> ReadAtom p;
       if mode = FetchText then Some (Some (fa\<lparr>fa_mode := FetchText\<rparr>), p1)
       else if mode = FetchHeader then Some (Some (fa\<lparr>fa_mode := FetchHeader\<rparr>), p1)
       else if mode = FetchHeaderFields then
         do {
           p2 \<leftarrow> Expect '' '' p1;
           (hl, p3) \<leftarrow> readStringList fuel p2;
           if \<not> Valid p3 then Some (None, p3)
           else Some (Some (fa\<lparr>fa_mode := FetchHeaderFields, fa_headerList := hl\<rparr>), p3)
         }
       else if mode = FetchHeaderFieldsNot then
         do {
           (hl, p3) \<leftarrow> readStringList fuel p1;
           if \<not> Valid p3 then Some (None, p3)
           else Some (Some (fa\<lparr>fa_mode := FetchHeaderFieldsNot, fa_headerList := hl\<rparr>), p3)
         }
       else Some (None, p1\<lparr>err := Some InvalidPartSpecifier\<rparr>)
     }"

definition ReadBodyAttribute :: "nat \<Rightarrow> Parser \<Rightarrow> (BodyFetchAttribute option \<times> Parser) option" where
  "ReadBodyAttribute fuel p =
     do {
       (peek, p1) \<leftarrow> readBodyAttributeStart p;
       if \<not> Valid p1 then Some (None, p1)
       else
         do {
           r \<leftarrow> partLoop [] False p1;
           (case r of
              Inl p2 \<Rightarrow> Some (None, p2)
            | Inr (part, p2) \<Rightarrow>
                (case Peek p2 of
                   (c, p3) \<Rightarrow>
                     if \<not> Valid p3 then Some (None, p3)
                     else if c = CHR ''.'' \<and> part = [] then
                       Some (None, p3\<lparr>err := Some InvalidPartSpecifier\<rparr>)
                     else
                       do {
                         p4 \<leftarrow> (if c = CHR ''.'' then advance 1 p3 else Some p3);
                         if \<not> Valid p4 then Some (None, p4)
                         else
                           (case Peek p4 of
                              (c, p5) \<Rightarrow>
                                if \<not> Valid p5 then Some (None, p5)
                                else
                                  do {
                                    (fa, p6) \<leftarrow>
                                      (let fa = \<lparr>fa_peek = peek, fa_part = part, fa_mode = FetchAll,
                                                 fa_headerList = None, fa_hasPartial = False,
                                                 fa_partial = (0, 0)\<rparr>
                                       in if c \<noteq> CHR '' '' \<and> c \<noteq> CHR '']'' then readBodyMode fuel fa p5
                                          else Some (Some fa, p5));
                                    (case fa of
                                       None \<Rightarrow> Some (None, p6)
                                     | Some fa \<Rightarrow>
                                         do {
                                           ((hasPartial, rng), p7) \<leftarrow> readBodyAttributeEnd p6;
                                           Some (Some (fa\<lparr>fa_hasPartial := hasPartial,
                                                          fa_partial := rng\<rparr>), p7)
                                         })
                                  })
                       }))
         }
     }"

section \<open>Flags (message.go)\<close>

definition FlagAnswered :: string where "FlagAnswered = backslash # ''Answered''"
definition FlagFlagged :: string where "FlagFlagged = backslash # ''Flagged''"
definition FlagDeleted :: string where "FlagDeleted = backslash # ''Trashed''"
definition FlagSeen :: string where "FlagSeen = backslash # ''Seen''"
definition FlagDraft :: string where "FlagDraft = backslash # ''Draft''"
definition FlagRecent :: string where "FlagRecent = backslash # ''Recent''"
definition KeywordMDNSent :: string where "KeywordMDNSent = ''$MDNSent''"
definition KeywordForwarded :: string where "KeywordForwarded = ''$Forwarded''"
definition KeywordSubmitPending :: string where "KeywordSubmitPending = ''$SubmitPending''"
definition KeywordSubmitted :: string where "KeywordSubmitted = ''$Submitted''"

definition KnownFlags :: "string list" where
  "KnownFlags =
     [FlagAnswered, FlagFlagged, FlagDeleted, FlagSeen, FlagDraft, FlagRecent,
      KeywordMDNSent, KeywordForwarded, KeywordSubmitPending, KeywordSubmitted]"

definition isKnownFlag :: "string \<Rightarrow> bool" where
  "isKnownFlag s \<longleftrightarrow> s \<in> set KnownFlags"

fun flagLoop :: "string list \<Rightarrow> string list \<Rightarrow> Parser \<Rightarrow> string list \<times> Parser" where
  "flagLoop [] list p = (list, p)"
| "flagLoop (s # strs) list p =
     (if isKnownFlag s then flagLoop strs (list @ [s]) p
      else (list, p\<lparr>err := Some (UnknownFlagError s)\<rparr>))"

definition ReadFlagList :: "nat \<Rightarrow> Parser \<Rightarrow> (string list option \<times> Parser) option" where
  "ReadFlagList fuel p =
     do {
       (strs, p1) \<leftarrow> ReadAtomList fuel p;
       if \<not> Valid p1 then Some (None, p1)
       else
         (case flagLoop (case strs of None \<Rightarrow> [] | Some l \<Rightarrow> l) [] p1 of
            (list, p2) \<Rightarrow> Some (Some list, p2))
     }"

section \<open>Search keys\<close>

text \<open>
  A \<open>Term\<close> is one of the node types, or \<open>nil\<close> (\<open>NilTerm\<close>). \<open>Flag\<close> and \<open>Field\<close> are
  string types. A \<open>time.Time\<close> is kept as its seconds and nanoseconds since the epoch,
  as \<open>time.Unix\<close> builds it.
\<close>

datatype Op = OpAnd | OpOr | OpNot | OpEquals | OpLT | OpGTE | OpContains | OpIn

datatype Time = Unix int int

datatype Term =
    NilTerm
  | AllTerm
  | BooleanTerm Op "Term list"
  | UnaryTerm Op Term
  | FlagTerm string bool
  | StringTerm Op string string
  | IntTerm Op string int
  | SetTerm Op string SequenceSet
  | DateTerm Op string Time

definition FromField :: string where "FromField = ''From''"
definition ToField :: string where "ToField = ''To''"
definition CcField :: string where "CcField = ''Cc''"
definition BccField :: string where "BccField = ''Bcc''"
definition SubjectField :: string where "SubjectField = ''Subject''"
definition TextField :: string where "TextField = ''Text''"
definition BodyField :: string where "BodyField = ''Body''"
definition MSNField :: string where "MSNField = ''MSN''"
definition UIDField :: string where "UIDField = ''UID''"
definition SizeField :: string where "SizeField = ''Size''"
definition DateField :: string where "DateField = ''Date''"
definition InternalDateField :: string where "InternalDateField = ''InternalDate''"

text \<open>
  \<open>time.Parse\<close> belongs to Go's library: the functions that parse dates take it as the
  parameter \<open>tp\<close>, from the layout and the text to the time or the error.
\<close>

definition ReadDate :: "(string \<Rightarrow> string \<Rightarrow> error + Time) \<Rightarrow> Parser \<Rightarrow> (Time \<times> Parser) option" where
  "ReadDate tp p =
     do {
       (s, p1) \<leftarrow> ReadString p;
       if \<not> Valid p1 then Some (Unix 0 0, p1)
       else
         (case tp ''_2-Jan-2006'' s of
            Inl e \<Rightarrow> Some (Unix 0 0, p1\<lparr>err := Some e\<rparr>)
          | Inr t \<Rightarrow> Some (t, p1))
     }"

definition ReadDateTime :: "(string \<Rightarrow> string \<Rightarrow> error + Time) \<Rightarrow> Parser \<Rightarrow> (Time \<times> Parser) option" where
  "ReadDateTime tp p =
     do {
       (s, p1) \<leftarrow> ReadQuotedString p;
       if \<not> Valid p1 then Some (Unix 0 0, p1)
       else
         (case tp ''_2-Jan-2006 15:04:05 -0700'' s of
            Inl e \<Rightarrow> Some (Unix 0 0, p1\<lparr>err := Some e\<rparr>)
          | Inr t \<Rightarrow> Some (t, p1))
     }"

text \<open>
  \<open>ReadSearchKey\<close> calls itself for the keys below \<open>NOT\<close>, \<open>OR\<close> and a parenthesis; the
  fuel bounds the depth of these calls and the turns of the loop over the keys of a
  parenthesis (\<open>groupLoop\<close>, which is given the reader of its keys). \<open>None\<close> is a
  panic or the end of the fuel. The chain of \<open>accept\<close> calls is in the order of the
  source; its last two statements, after a chain in which every branch returns, cannot
  be reached.
\<close>

primrec groupLoop ::
  "nat \<Rightarrow> (Parser \<Rightarrow> (Term \<times> Parser) option) \<Rightarrow> Term list \<Rightarrow> Parser
     \<Rightarrow> (Term list \<times> Parser) option"
where
  "groupLoop 0 readKey terms p = None"
| "groupLoop (Suc fuel) readKey terms p =
     do {
       (close, p) \<leftarrow> accept '')'' p;
       if close then Some (terms, p)
       else
         do {
           p \<leftarrow> ReadSpace p;
           (t, p) \<leftarrow> readKey p;
           if \<not> Valid p then Some (terms @ [t], p)
           else groupLoop fuel readKey (terms @ [t]) p
         }
     }"

primrec ReadSearchKey ::
  "(string \<Rightarrow> string \<Rightarrow> error + Time) \<Rightarrow> nat \<Rightarrow> Parser \<Rightarrow> (Term \<times> Parser) option"
where
  "ReadSearchKey tp 0 p = None"
| "ReadSearchKey tp (Suc fuel) p =
    (if \<not> Valid p then Some (NilTerm, p)
     else
     do {
       (ok, p) \<leftarrow> accept ''all'' p;
       if ok then Some (AllTerm, p)
       else
     do {
       (ok, p) \<leftarrow> accept ''answered'' p;
       if ok then Some (FlagTerm FlagAnswered True, p)
       else
     do {
       (ok, p) \<leftarrow> accept ''bcc'' p;
       if ok then do {
         p \<leftarrow> ReadSpace p;
         (s, p) \<leftarrow> ReadAstring p;
         Some (StringTerm OpContains BccField s, p)
       }
       else
     do {
       (ok, p) \<leftarrow> accept ''before'' p;
       if ok then do {
         p \<leftarrow> ReadSpace p;
         (dt, p) \<leftarrow> ReadDate tp p;
         Some (DateTerm OpLT InternalDateField dt, p)
       }
       else
     do {
       (ok, p) \<leftarrow> accept ''body'' p;
       if ok then do {
         p \<leftarrow> ReadSpace p;
         (s, p) \<leftarrow> ReadString p;
         Some (StringTerm OpContains BodyField s, p)
       }
       else
     do {
       (ok, p) \<leftarrow> accept ''cc'' p;
       if ok then do {
         p \<leftarrow> ReadSpace p;
         (s, p) \<leftarrow> ReadAstring p;
         Some (StringTerm OpContains CcField s, p)
       }
       else
     do {
       (ok, p) \<leftarrow> accept ''deleted'' p;
       if ok then Some (FlagTerm FlagDeleted True, p)
       else
     do {
       (ok, p) \<leftarrow> accept ''flagged'' p;
       if ok then Some (FlagTerm FlagFlagged True, p)
       else
     do {
       (ok, p) \<leftarrow> accept ''from'' p;
       if ok then do {
         p \<leftarrow> ReadSpace p;
         (s, p) \<leftarrow> ReadAstring p;
         Some (StringTerm OpContains FromField s, p)
       }
       else
     do {
       (ok, p) \<leftarrow> accept ''keyword'' p;
       if ok then do {
         p \<leftarrow> ReadSpace p;
         (a, p) \<leftarrow> ReadAtom p;
         Some (FlagTerm a True, p)
       }
       else
     do {
       (ok, p) \<leftarrow> accept ''new'' p;
       if ok then Some (BooleanTerm OpAnd [FlagTerm FlagRecent True, FlagTerm FlagSeen False], p)
       else
     do {
       (ok, p) \<leftarrow> accept ''old'' p;
       if ok then Some (FlagTerm FlagRecent False, p)
       else
     do {
       (ok, p) \<leftarrow> accept ''on'' p;
       if ok then do {
         p \<leftarrow> ReadSpace p;
         (dt, p) \<leftarrow> ReadDate tp p;
         Some (DateTerm OpEquals InternalDateField dt, p)
       }
       else
     do {
       (ok, p) \<leftarrow> accept ''recent'' p;
       if ok then Some (FlagTerm FlagRecent True, p)
       else
     do {
       (ok, p) \<leftarrow> accept ''seen'' p;
       if ok then Some (FlagTerm FlagSeen True, p)
       else
     do {
       (ok, p) \<leftarrow> accept ''since'' p;
       if ok then do {
         p \<leftarrow> ReadSpace p;
         (dt, p) \<leftarrow> ReadDate tp p;
         Some (DateTerm OpGTE InternalDateField dt, p)
       }
       else
     do {
       (ok, p) \<leftarrow> accept ''subject'' p;
       if ok then do {
         p \<leftarrow> ReadSpace p;
         (s, p) \<leftarrow> ReadAstring p;
         Some (StringTerm OpContains SubjectField s, p)
       }
       else
     do {
       (ok, p) \<leftarrow> accept ''text'' p;
       if ok then do {
         p \<leftarrow> ReadSpace p;
         (s, p) \<leftarrow> ReadAstring p;
         Some (StringTerm OpContains TextField s, p)
       }
       else
     do {
       (ok, p) \<leftarrow> accept ''to'' p;
       if ok then do {
         p \<leftarrow> ReadSpace p;
         (s, p) \<leftarrow> ReadAstring p;
         Some (StringTerm OpContains ToField s, p)
       }
       else
     do {
       (ok, p) \<leftarrow> accept ''unanswered'' p;
       if ok then Some (FlagTerm FlagAnswered False, p)
       else
     do {
       (ok, p) \<leftarrow> accept ''undeleted'' p;
       if ok then Some (FlagTerm FlagDeleted False, p)
       else
     do {
       (ok, p) \<leftarrow> accept ''unflagged'' p;
       if ok then Some (FlagTerm FlagFlagged False, p)
       else
     do {
       (ok, p) \<leftarrow> accept ''unkeyword'' p;
       if ok then do {
         p \<leftarrow> ReadSpace p;
         (a, p) \<leftarrow> ReadAtom p;
         Some (FlagTerm a False, p)
       }
       else
     do {
       (ok, p) \<leftarrow> accept ''unseen'' p;
       if ok then Some (FlagTerm FlagSeen False, p)
       else
     do {
       (ok, p) \<leftarrow> accept ''draft'' p;
       if ok then Some (FlagTerm FlagDraft True, p)
       else
     do {
       (ok, p) \<leftarrow> accept ''header'' p;
       if ok then do {
         p \<leftarrow> ReadSpace p;
         (field, p) \<leftarrow> ReadAstring p;
         p \<leftarrow> ReadSpace p;
         (s, p) \<leftarrow> ReadString p;
         Some (StringTerm OpContains (''header.'' @ field) s, p)
       }
       else
     do {
       (ok, p) \<leftarrow> accept ''larger'' p;
       if ok then do {
         p \<leftarrow> ReadSpace p;
         (s, p) \<leftarrow> ReadInt p;
         Some (IntTerm OpGTE SizeField s, p)
       }
       else
     do {
       (ok, p) \<leftarrow> accept ''not'' p;
       if ok then do {
         p \<leftarrow> ReadSpace p;
         (term, p) \<leftarrow> ReadSearchKey tp fuel p;
         Some (UnaryTerm OpNot term, p)
       }
       else
     do {
       (ok, p) \<leftarrow> accept ''or'' p;
       if ok then do {
         p \<leftarrow> ReadSpace p;
         (key1, p) \<leftarrow> ReadSearchKey tp fuel p;
         p \<leftarrow> ReadSpace p;
         (key2, p) \<leftarrow> ReadSearchKey tp fuel p;
         if key1 = AllTerm then Some (key2, p)
         else if key2 = AllTerm then Some (key1, p)
         else Some (BooleanTerm OpOr [key1, key2], p)
       }
       else
     do {
       (ok, p) \<leftarrow> accept ''sentbefore'' p;
       if ok then do {
         p \<leftarrow> ReadSpace p;
         (dt, p) \<leftarrow> ReadDate tp p;
         Some (DateTerm OpLT DateField dt, p)
       }
       else
     do {
       (ok, p) \<leftarrow> accept ''senton'' p;
       if ok then do {
         p \<leftarrow> ReadSpace p;
         (dt, p) \<leftarrow> ReadDate tp p;
         Some (DateTerm OpEquals DateField dt, p)
       }
       else
     do {
       (ok, p) \<leftarrow> accept ''sentsince'' p;
       if ok then do {
         p \<leftarrow> ReadSpace p;
         (dt, p) \<leftarrow> ReadDate tp p;
         Some (DateTerm OpGTE DateField dt, p)
       }
       else
     do {
       (ok, p) \<leftarrow> accept ''smaller'' p;
       if ok then do {
         p \<leftarrow> ReadSpace p;
         (s, p) \<leftarrow> ReadInt p;
         Some (IntTerm OpLT SizeField s, p)
       }
       else
     do {
       (ok, p) \<leftarrow> accept ''uid'' p;
       if ok then do {
         p \<leftarrow> ReadSpace p;
         (sset, p) \<leftarrow> ReadSequenceSet p;
         Some (SetTerm OpIn UIDField sset, p)
       }
       else
     do {
       (ok, p) \<leftarrow> accept ''undraft'' p;
       if ok then Some (FlagTerm FlagDraft False, p)
       else
     do {
       (ok, p) \<leftarrow> accept ''('' p;
       if ok then do {
         (first, p) \<leftarrow> ReadSearchKey tp fuel p;
         (terms, p) \<leftarrow> groupLoop fuel (ReadSearchKey tp fuel) [first] p;
         if length terms = 1 then Some (terms ! 0, p)
         else Some (BooleanTerm OpAnd terms, p)
       }
       else
     do {
       (sset, p) \<leftarrow> ReadSequenceSet p;
       if \<not> Valid p then Some (NilTerm, p)
       else Some (SetTerm OpIn MSNField sset, p)
     } } } } } } } } } } } } } } } } } } } } } } } } } } } } } } } } } } } } })"

primrec searchLoop ::
  "nat \<Rightarrow> (Parser \<Rightarrow> (Term \<times> Parser) option) \<Rightarrow> Term list \<Rightarrow> Parser
     \<Rightarrow> (Term list \<times> Parser) option"
where
  "searchLoop 0 readKey terms p = None"
| "searchLoop (Suc fuel) readKey terms p =
     do {
       (sp, p) \<leftarrow> accept '' '' p;
       if \<not> sp then Some (terms, p)
       else
         do {
           (t, p) \<leftarrow> readKey p;
           searchLoop fuel readKey (terms @ [t]) p
         }
     }"

definition ReadSearch ::
  "(string \<Rightarrow> string \<Rightarrow> error + Time) \<Rightarrow> nat \<Rightarrow> Parser \<Rightarrow> ((string \<times> Term) \<times> Parser) option"
where
  "ReadSearch tp fuel p =
     do {
       p \<leftarrow> ReadSpace p;
       (cs, p) \<leftarrow> accept ''CHARSET'' p;
       (charset, p) \<leftarrow>
         (if cs then
            do {
              p \<leftarrow> ReadSpace p;
              (charset, p) \<leftarrow> ReadString p;
              p \<leftarrow> ReadSpace p;
              Some (charset, p)
            }
          else Some (''us-ascii'', p));
       (first, p) \<leftarrow> ReadSearchKey tp fuel p;
       (terms, p) \<leftarrow> searchLoop fuel (ReadSearchKey tp fuel) [first] p;
       Some ((charset, if length terms = 1 then terms ! 0 else BooleanTerm OpAnd terms), p)
     }"

section \<open>Enumeration of a sequence set\<close>

text \<open>
  \<open>runCalls\<close> is what a sequence of callback invocations does: the calls are made in
  order, each on the state the one before it left, up to the first error.
  \<open>resolvedMin\<close> and \<open>resolvedMax\<close> are the bounds \<open>Foreach\<close> enumerates between, read
  off the two stored endpoints; \<open>members\<close> are the integers between them.
\<close>

fun runCalls :: "(int \<Rightarrow> 's \<Rightarrow> error option \<times> 's) \<Rightarrow> int list \<Rightarrow> 's \<Rightarrow> error option \<times> 's" where
  "runCalls callback [] st = (None, st)"
| "runCalls callback (i # rest) st =
     (case callback i st of
        (Some e, st') \<Rightarrow> (Some e, st')
      | (None, st') \<Rightarrow> runCalls callback rest st')"

definition resolvedMin :: "int \<Rightarrow> SequenceRange \<Rightarrow> int" where
  "resolvedMin maxv rng =
     (case rng of
        (a, b) \<Rightarrow>
          if a = Star \<and> b = Star then maxv
          else if a = Star then b
          else if b = Star then a
          else min a b)"

definition resolvedMax :: "int \<Rightarrow> SequenceRange \<Rightarrow> int" where
  "resolvedMax maxv rng =
     (case rng of
        (a, b) \<Rightarrow> if a = Star \<or> b = Star then maxv else min maxv (max a b))"

definition members :: "int \<Rightarrow> SequenceRange \<Rightarrow> int list" where
  "members maxv rng = [resolvedMin maxv rng .. resolvedMax maxv rng]"

text \<open>
  The resolution as the specification words it: the sentinel becomes the supplied
  maximum and every literal endpoint above the maximum is clamped down to it, before the
  minimum and the maximum of the two are taken.
\<close>

definition clampEndpoint :: "int \<Rightarrow> int \<Rightarrow> int" where
  "clampEndpoint maxv e = (if e = Star then maxv else if e > maxv then maxv else e)"

definition members_spec :: "int \<Rightarrow> SequenceRange \<Rightarrow> int list" where
  "members_spec maxv rng =
     (case rng of
        (a, b) \<Rightarrow>
          [min (clampEndpoint maxv a) (clampEndpoint maxv b) ..
           max (clampEndpoint maxv a) (clampEndpoint maxv b)])"

text \<open>The callback that records the integers it is given.\<close>

definition recordCall :: "int \<Rightarrow> int list \<Rightarrow> error option \<times> int list" where
  "recordCall i seen = (None, seen @ [i])"

lemma runCalls_append:
  "runCalls callback (xs @ ys) st =
     (case runCalls callback xs st of
        (Some e, st') \<Rightarrow> (Some e, st')
      | (None, st') \<Rightarrow> runCalls callback ys st')"
  by (induction xs arbitrary: st) (auto split: prod.splits option.splits)

lemma runCalls_recordCall: "runCalls recordCall xs seen = (None, seen @ xs)"
  by (induction xs arbitrary: seen) (simp_all add: recordCall_def)

lemma wrap64_id: "isInt64 i \<Longrightarrow> wrap64 i = i"
  by (simp add: wrap64_def isInt64_def)

lemma rangeLoop_runCalls:
  assumes "isInt64 i" and "localMax < 2 ^ 63 - 1"
  shows "rangeLoop callback i localMax st = Some (runCalls callback [i .. localMax] st)"
  using assms
proof (induction "nat (localMax + 1 - i)" arbitrary: i st)
  case 0
  then have "\<not> i \<le> localMax" by simp
  then show ?case by (subst rangeLoop.simps) simp
next
  case (Suc k)
  then have le: "i \<le> localMax" by linarith
  then have up: "[i .. localMax] = i # [i + 1 .. localMax]" by (simp add: upto_rec1)
  have w: "wrap64 (i + 1) = i + 1"
    using le Suc.prems by (intro wrap64_id) (simp add: isInt64_def)
  have next_ok: "isInt64 (i + 1)"
    using le Suc.prems by (simp add: isInt64_def)
  have k: "k = nat (localMax + 1 - (i + 1))" using Suc.hyps(2) by linarith
  show ?case
  proof (cases "callback i st")
    case (Pair e st')
    show ?thesis
    proof (cases e)
      case None
      with Pair le show ?thesis
        by (subst rangeLoop.simps) (simp add: up w Suc.hyps(1) [OF k next_ok Suc.prems(2)])
    next
      case (Some x)
      with Pair le show ?thesis by (subst rangeLoop.simps) (simp add: up)
    qed
  qed
qed

lemma Foreach_range_bounds:
  "(if SequenceRange_Min rng = Star then maxv else SequenceRange_Min rng) = resolvedMin maxv rng"
  "(if SequenceRange_Max rng = Star \<or> SequenceRange_Max rng > maxv then maxv
    else SequenceRange_Max rng) = resolvedMax maxv rng"
  by (cases rng; auto simp: resolvedMin_def resolvedMax_def Star_def)+

lemma resolvedMin_isInt64:
  "isInt64 maxv \<Longrightarrow> isInt64 (fst rng) \<Longrightarrow> isInt64 (snd rng) \<Longrightarrow> isInt64 (resolvedMin maxv rng)"
  by (cases rng) (auto simp: resolvedMin_def min_def)

lemma resolvedMax_le: "resolvedMax maxv rng \<le> maxv"
  by (cases rng) (auto simp: resolvedMax_def)

text \<open>
  C2, as amended. For every sequence set of 64-bit endpoints and every maximum \<open>M\<close> below
  the largest 64-bit integer, \<open>Foreach\<close> returns, and what it has done is to invoke the
  callback, range after range in the order of the list and without removing
  duplicates, on every integer from the resolved minimum to the resolved maximum of the
  range, up to the first error of the callback. The resolved maximum is \<open>M\<close> when an
  endpoint is \<open>*\<close> and the larger endpoint clamped down to \<open>M\<close> otherwise; the resolved
  minimum is the smaller endpoint, \<open>M\<close> when both are \<open>*\<close>, and is not clamped: a range
  that starts above \<open>M\<close> yields no call.
\<close>

theorem Foreach_enumerates:
  assumes "isInt64 maxv" and "maxv < 2 ^ 63 - 1"
    and "\<forall>rng \<in> set s. isInt64 (fst rng) \<and> isInt64 (snd rng)"
  shows "Foreach maxv callback s st = Some (runCalls callback (concat (map (members maxv) s)) st)"
  using assms(3)
proof (induction s arbitrary: st)
  case Nil
  show ?case by simp
next
  case (Cons rng s)
  have lo: "isInt64 (resolvedMin maxv rng)"
    using Cons.prems assms(1) by (simp add: resolvedMin_isInt64)
  have hi: "resolvedMax maxv rng < 2 ^ 63 - 1"
    using resolvedMax_le [of maxv rng] assms(2) by linarith
  have loop: "rangeLoop callback (resolvedMin maxv rng) (resolvedMax maxv rng) st =
      Some (runCalls callback (members maxv rng) st)"
    using rangeLoop_runCalls [OF lo hi] by (simp add: members_def)
  have rest: "\<And>st'. Foreach maxv callback s st' =
      Some (runCalls callback (concat (map (members maxv) s)) st')"
    using Cons.IH Cons.prems by simp
  show ?case
    by (simp add: Let_def Foreach_range_bounds loop rest runCalls_append
             split: prod.splits option.splits)
qed

theorem Foreach_enumerates_witness:
  "isInt64 10 \<and> (10 :: int) < 2 ^ 63 - 1 \<and>
   Foreach 10 recordCall [(2, 4), (Star, 9), (4, 3), (12, 15)] [] =
     Some (None, [2, 3, 4, 9, 10, 3, 4])"
proof -
  have a: "isInt64 10" "(10 :: int) < 2 ^ 63 - 1"
    "\<forall>rng \<in> set [(2, 4), (Star, 9), (4, 3), (12, 15)]. isInt64 (fst rng) \<and> isInt64 (snd rng)"
    by (simp_all add: isInt64_def Star_def)
  have m: "concat (map (members 10) [(2, 4), (Star, 9), (4, 3), (12, 15)]) = [2, 3, 4, 9, 10, 3, 4]"
    by (simp add: members_def resolvedMin_def resolvedMax_def Star_def upto.simps)
  show ?thesis
    using Foreach_enumerates [OF a, of recordCall "[]"] a(1,2)
    by (simp only: m runCalls_recordCall) simp
qed

text \<open>
  C2 as the specification states it fails on the range \<open>5:7\<close> with the maximum 3: both
  endpoints clamp to 3, so the specification enumerates 3, while \<open>Foreach\<close> starts at the
  unclamped 5 and invokes the callback on nothing.
\<close>

theorem Foreach_clamp_counterexample:
  "Foreach 3 recordCall [(5, 7)] [] = Some (None, []) \<and> members_spec 3 (5, 7) = [3]"
proof -
  have "rangeLoop recordCall 5 3 [] = Some (None, [])"
    by (subst rangeLoop.simps) simp
  then show ?thesis
    by (simp add: Star_def members_spec_def clampEndpoint_def upto.simps)
qed

section \<open>The cursor on a loaded line\<close>

text \<open>
  Every read starts with \<open>ensure\<close>, which reads the next line when the parser is at the
  end of one. \<open>loaded p\<close> is the state after that step.
\<close>

definition loaded :: "Parser \<Rightarrow> Parser" where
  "loaded p = (if isEOL p then readLine p else p)"

lemma error_slot_same: "err p = e \<Longrightarrow> p\<lparr>err := e\<rparr> = p"
  by (cases p) auto

lemma loaded_not_EOL [simp]: "\<not> isEOL p \<Longrightarrow> loaded p = p"
  by (simp add: loaded_def)

lemma readLine_Valid_not_EOL: "Valid (readLine p) \<Longrightarrow> \<not> isEOL (readLine p)"
  by (auto simp: readLine_def Valid_def ReadString_lf_def Let_def split: list.splits)

lemma loaded_Valid_not_EOL: "Valid p \<Longrightarrow> Valid (loaded p) \<Longrightarrow> \<not> isEOL (loaded p) \<or> \<not> isEOL p"
  using readLine_Valid_not_EOL [of p] by (auto simp: loaded_def)

lemma ensure_loaded:
  "ensure ct p =
     (let q = loaded p
      in if isEOL p \<and> \<not> Valid q then q
         else if available q < ct then q\<lparr>err := Some ErrLineTooShort\<rparr>
         else q)"
  by (simp add: ensure_def loaded_def)

lemma ensure_ready:
  "Valid p \<Longrightarrow> \<not> isEOL p \<Longrightarrow>
     ensure ct p = (if available p < ct then p\<lparr>err := Some ErrLineTooShort\<rparr> else p)"
  by (simp add: ensure_def)

lemma ensure_enough: "\<not> isEOL p \<Longrightarrow> ct \<le> available p \<Longrightarrow> ensure ct p = p"
  by (simp add: ensure_def)

lemma advance_ok: "n \<le> available p \<Longrightarrow> advance n p = Some (p\<lparr>pos := pos p + n\<rparr>)"
  by (simp add: advance_def)

lemma ToLower_length [simp]: "length (ToLower s) = length s"
  by (simp add: ToLower_def)

lemma ToLower_take_short:
  assumes "length t < length s"
  shows "ToLower (take (length s) t) \<noteq> ToLower s"
proof
  assume "ToLower (take (length s) t) = ToLower s"
  then have "length (ToLower (take (length s) t)) = length (ToLower s)" by simp
  with assms show False by simp
qed

lemma accept_ready:
  assumes "Valid p" and "\<not> isEOL p"
  shows "accept s p =
     (if ToLower (take (length s) (Tail p)) = ToLower s
      then Some (True, p\<lparr>pos := pos p + length s\<rparr>)
      else Some (False, p))"
proof (cases "available p < length s")
  case True
  then have "ToLower (take (length s) (Tail p)) \<noteq> ToLower s"
    by (intro ToLower_take_short) (simp add: available_def)
  moreover have "p\<lparr>err := None\<rparr> = p"
    using assms(1) by (simp add: Valid_def error_slot_same)
  ultimately show ?thesis
    using assms True by (simp add: accept_def ensure_ready Valid_def)
next
  case False
  then show ?thesis
    using assms by (simp add: accept_def ensure_ready Let_def advance_ok)
qed

lemma accept_loaded:
  assumes "Valid p"
  shows "accept s p =
     (let q = loaded p
      in if Valid q \<and> ToLower (take (length s) (Tail q)) = ToLower s
         then Some (True, q\<lparr>pos := pos q + length s\<rparr>)
         else Some (False, q))"
proof (cases "isEOL p")
  case False
  then show ?thesis using assms accept_ready [of p s] by (simp add: Let_def)
next
  case True
  define q where "q = loaded p"
  show ?thesis
  proof (cases "Valid q")
    case False
    then have "ensure (length s) p = q"
      using True by (simp add: ensure_loaded q_def)
    moreover have "err q \<noteq> Some ErrLineTooShort"
      using True
      by (auto simp: q_def loaded_def readLine_def ReadString_lf_def Let_def split: list.splits)
    ultimately show ?thesis
      using assms False by (simp add: accept_def Let_def flip: q_def)
  next
    case vq: True
    then have neol: "\<not> isEOL q"
      using True readLine_Valid_not_EOL [of p] by (simp add: q_def loaded_def)
    have "ensure (length s) p = ensure (length s) q"
      using vq neol by (simp add: ensure_loaded ensure_ready flip: q_def)
    then have "accept s p = accept s q"
      using assms vq by (simp add: accept_def)
    then show ?thesis
      using accept_ready [OF vq neol, of s] vq by (simp add: Let_def flip: q_def)
  qed
qed

text \<open>
  C8, as amended. For every valid parser state and ASCII string \<open>s\<close>, \<open>accept s\<close> first
  makes sure a line is loaded: at the end of a line it reads the next one from the
  connection, which puts the position back to 0. On the state \<open>q\<close> after that step it
  matches \<open>s\<close> at the cursor without regard to case: when \<open>q\<close> is valid and the next
  \<open>len(s)\<close> bytes match, it returns true and only advances the position of \<open>q\<close> by
  \<open>len(s)\<close>; otherwise it returns false with the state \<open>q\<close> itself, the "line too short"
  error of the length check cleared again and a read error of the line left in the
  error slot. When a line is already loaded, \<open>q\<close> is the state before the call, so a
  mismatch changes nothing at all.
\<close>

theorem accept_frame:
  assumes "Valid p" and "\<forall>c \<in> set s. c < char_lim"
  shows "accept s p =
           (if Valid (loaded p) \<and> ToLower (take (length s) (Tail (loaded p))) = ToLower s
            then Some (True, (loaded p)\<lparr>pos := pos (loaded p) + length s\<rparr>)
            else Some (False, loaded p)) \<and>
         (if isEOL p then loaded p = readLine p else loaded p = p)"
  using accept_loaded [OF assms(1), of s] by (simp add: Let_def loaded_def)

definition midLine :: Parser where
  "midLine =
     \<lparr>writer = [], reader = ''next'' @ crlf, line = ''uid FETCH 1'' @ crlf, pos = 4,
      isEOL = False, inSection = False, listDepth = 0, err = None\<rparr>"

theorem accept_frame_witness:
  "Valid midLine \<and>
   accept ''fetch'' midLine = Some (True, midLine\<lparr>pos := 9\<rparr>) \<and>
   accept ''store'' midLine = Some (False, midLine) \<and>
   accept ''fetch 1  x'' midLine = Some (False, midLine)"
proof -
  have v: "Valid midLine" by (simp add: Valid_def midLine_def)
  have a: "\<forall>c \<in> set ''fetch''. c < char_lim" by (simp add: char_lim_def)
  have b: "\<forall>c \<in> set ''store''. c < char_lim" by (simp add: char_lim_def)
  have c: "\<forall>c \<in> set ''fetch 1  x''. c < char_lim" by (simp add: char_lim_def)
  have l: "loaded midLine = midLine" "Tail midLine = ''FETCH 1'' @ crlf" "pos midLine = 4"
    by (simp_all add: midLine_def Tail_def)
  have t: "ToLower ''FETCH'' = ToLower ''fetch''" "ToLower ''FETCH'' \<noteq> ToLower ''store''"
    "ToLower (''FETCH 1'' @ crlf) \<noteq> ToLower ''fetch 1  x''"
    by (simp_all add: ToLower_def toLowerByte_def char_of_def bit_0 crlf_def cr_def lf_def)
  show ?thesis
    using accept_frame [OF v a] accept_frame [OF v b] accept_frame [OF v c] v a t
    by (simp add: l crlf_def)
qed

text \<open>
  C8 as the specification states it fails for a parser at the end of a line, the state a
  parser starts in: a mismatch returns false, but the state is not the one before the
  call, the next line has been read from the connection.
\<close>

theorem accept_loads_line_counterexample:
  "accept ''a'' (NewParser (''xyz'' @ crlf)) =
     Some (False,
       \<lparr>writer = [], reader = [], line = ''xyz'' @ crlf, pos = 0, isEOL = False,
        inSection = False, listDepth = 0, err = None\<rparr>) \<and>
   line (NewParser (''xyz'' @ crlf)) = [] \<and>
   reader (NewParser (''xyz'' @ crlf)) = ''xyz'' @ crlf \<and>
   isEOL (NewParser (''xyz'' @ crlf))"
  by (simp add: accept_def NewParser_def Valid_def ensure_def readLine_def ReadString_lf_def
        crlf_def cr_def lf_def ToLower_def toLowerByte_def available_def Tail_def)

section \<open>Reading numbers from a loaded line\<close>

definition isDigit :: "char \<Rightarrow> bool" where
  "isDigit c \<longleftrightarrow> CHR ''0'' \<le> c \<and> c \<le> CHR ''9''"

lemma toLowerByte_Char:
  "toLowerByte (Char b0 b1 b2 b3 b4 b5 b6 b7) =
     (if CHR ''A'' \<le> Char b0 b1 b2 b3 b4 b5 b6 b7 \<and> Char b0 b1 b2 b3 b4 b5 b6 b7 \<le> CHR ''Z''
      then Char b0 b1 b2 b3 b4 True b6 b7
      else Char b0 b1 b2 b3 b4 b5 b6 b7)"
  by (cases b0; cases b1; cases b2; cases b3; cases b4; cases b5; cases b6; cases b7;
      simp add: toLowerByte_def char_of_def bit_0)

lemma ToLower_simps [simp]:
  "ToLower [] = []"
  "ToLower (c # cs) = toLowerByte c # ToLower cs"
  "ToLower (xs @ ys) = ToLower xs @ ToLower ys"
  by (simp_all add: ToLower_def)

lemma toLowerByte_not_letter:
  "\<not> (CHR ''A'' \<le> c \<and> c \<le> CHR ''Z'') \<Longrightarrow> toLowerByte c = c"
  by (auto simp: toLowerByte_def)

lemma toLowerByte_digit [simp]: "isDigit c \<Longrightarrow> toLowerByte c = c"
  by (cases c) (auto simp: isDigit_def toLowerByte_def)

lemma loaded_ready: "Valid (loaded p) \<Longrightarrow> \<not> isEOL (loaded p)"
  using readLine_Valid_not_EOL [of p] by (auto simp: loaded_def)

lemma Tail_advance [simp]: "Tail (p\<lparr>pos := pos p + n\<rparr>) = drop n (Tail p)"
  by (simp add: Tail_def add.commute)

lemma Tail_advance_Suc [simp]: "Tail (p\<lparr>pos := Suc (pos p)\<rparr>) = drop 1 (Tail p)"
  using Tail_advance [of p 1] by simp

lemma Valid_simps [simp]:
  "Valid (p\<lparr>pos := k\<rparr>) = Valid p"
  "Valid (p\<lparr>err := None\<rparr>)"
  "\<not> Valid (p\<lparr>err := Some e\<rparr>)"
  "Valid (p\<lparr>inSection := b\<rparr>) = Valid p"
  "Valid (p\<lparr>listDepth := d\<rparr>) = Valid p"
  "Valid (p\<lparr>isEOL := b\<rparr>) = Valid p"
  "Valid (p\<lparr>writer := w\<rparr>) = Valid p"
  "Valid (p\<lparr>reader := r\<rparr>) = Valid p"
  by (simp_all add: Valid_def)

lemma Tail_simps [simp]:
  "Tail (p\<lparr>err := e\<rparr>) = Tail p"
  "Tail (p\<lparr>inSection := b\<rparr>) = Tail p"
  "Tail (p\<lparr>listDepth := d\<rparr>) = Tail p"
  "Tail (p\<lparr>isEOL := b\<rparr>) = Tail p"
  "Tail (p\<lparr>writer := w\<rparr>) = Tail p"
  "Tail (p\<lparr>reader := r\<rparr>) = Tail p"
  by (simp_all add: Tail_def)

lemma intLoop_digits:
  assumes "Valid p" and "\<not> isEOL p" and "Tail p = ds @ c # rest"
    and "\<forall>d \<in> set ds. isDigit d" and "\<not> isDigit c" and "n \<le> length ds"
  shows "intLoop (Tail p) n p = Some (Inr (length ds, p))"
  using assms(6)
proof (induction "length ds - n" arbitrary: n)
  case 0
  then have n: "n = length ds" by simp
  have e: "ensure (n + 1) p = p"
    using assms(2,3) by (intro ensure_enough) (simp_all add: available_def n)
  have "Tail p ! n = c" by (simp add: assms(3) n)
  then show ?case
    using assms(1,3,5) e
    by (subst intLoop.simps) (auto simp: Let_def isDigit_def n not_le not_less)
next
  case (Suc k)
  then have n: "n < length ds" by simp
  have e: "ensure (n + 1) p = p"
    using assms(2,3) n by (intro ensure_enough) (simp_all add: available_def)
  have "Tail p ! n = ds ! n" using n by (simp add: assms(3) nth_append)
  then have d: "isDigit (Tail p ! n)" using assms(4) n by simp
  have "intLoop (Tail p) (n + 1) p = Some (Inr (length ds, p))"
    using Suc.hyps(1) [of "n + 1"] Suc.hyps(2) n by simp
  then show ?case
    using assms(1,3) e d n
    by (subst intLoop.simps) (auto simp: Let_def isDigit_def not_le not_less)
qed

lemma ReadInt_digits:
  assumes "Valid p" and "\<not> isEOL p" and "Tail p = ds @ c # rest"
    and "\<forall>d \<in> set ds. isDigit d" and "\<not> isDigit c" and "ds \<noteq> []"
    and "decimal ds \<le> 2 ^ 63 - 1"
  shows "ReadInt p = Some (decimal ds, p\<lparr>pos := pos p + length ds\<rparr>)"
proof -
  have "intLoop (Tail p) 0 p = Some (Inr (length ds, p))"
    using intLoop_digits [OF assms(1-5), of 0] by simp
  moreover have "take (length ds) (Tail p) = ds" by (simp add: assms(3))
  moreover have "advance (length ds) p = Some (p\<lparr>pos := pos p + length ds\<rparr>)"
    by (intro advance_ok) (simp add: available_def assms(3))
  ultimately show ?thesis
    using assms(1,6,7) by (simp add: ReadInt_def Let_def Atoi_def)
qed

text \<open>
  The text of a sequence number: \<open>*\<close> for the sentinel, or decimal digits for an
  integer from 1 to the largest 64-bit integer.
\<close>

definition seqNumText :: "string \<Rightarrow> int \<Rightarrow> bool" where
  "seqNumText e v \<longleftrightarrow>
     (e = ''*'' \<and> v = Star) \<or>
     (e \<noteq> [] \<and> (\<forall>d \<in> set e. isDigit d) \<and> v = decimal e \<and> 1 \<le> v \<and> v \<le> 2 ^ 63 - 1)"

lemma accept_first_byte:
  assumes "Valid p" and "Valid (loaded p)" and "Tail (loaded p) = c # rest"
  shows "accept [d] p =
     (if toLowerByte c = toLowerByte d then Some (True, (loaded p)\<lparr>pos := pos (loaded p) + 1\<rparr>)
      else Some (False, loaded p))"
  using accept_loaded [OF assms(1), of "[d]"] assms(2,3) by (simp add: Let_def)

lemma readSeqNumber_star:
  assumes "Valid p" and "Valid (loaded p)" and "Tail (loaded p) = CHR ''*'' # rest"
  shows "readSeqNumber p = Some (Star, (loaded p)\<lparr>pos := pos (loaded p) + 1\<rparr>)"
  using accept_first_byte [OF assms, of "CHR ''*''"] by (simp add: readSeqNumber_def)

lemma readSeqNumber_digits:
  assumes "Valid p" and "Valid (loaded p)" and "Tail (loaded p) = ds @ c # rest"
    and "\<forall>d \<in> set ds. isDigit d" and "\<not> isDigit c" and "ds \<noteq> []"
    and "decimal ds \<le> 2 ^ 63 - 1"
  shows "readSeqNumber p =
     Some (decimal ds,
       if decimal ds < 1
       then (loaded p)\<lparr>pos := pos (loaded p) + length ds, err := Some ErrSeqNoOutOfBounds\<rparr>
       else (loaded p)\<lparr>pos := pos (loaded p) + length ds\<rparr>)"
proof -
  obtain d ds' where ds: "ds = d # ds'" using assms(6) by (cases ds) auto
  then have dd: "isDigit d" using assms(4) by simp
  then have "d \<noteq> CHR ''*''" by (auto simp: isDigit_def)
  then have "toLowerByte d \<noteq> toLowerByte CHR ''*''"
    using dd by (simp add: toLowerByte_Char)
  then have "accept ''*'' p = Some (False, loaded p)"
    using accept_first_byte [OF assms(1,2), of d "ds' @ c # rest" "CHR ''*''"] assms(3) ds
    by simp
  then show ?thesis
    using ReadInt_digits [OF assms(2) loaded_ready [OF assms(2)] assms(3-7)]
    by (simp add: readSeqNumber_def)
qed

lemma readSeqNumber_text:
  assumes "Valid p" and "Valid (loaded p)" and "Tail (loaded p) = e @ c # rest"
    and "seqNumText e v" and "\<not> isDigit c"
  shows "readSeqNumber p = Some (v, (loaded p)\<lparr>pos := pos (loaded p) + length e\<rparr>)"
proof (cases "e = ''*''")
  case True
  then have "v = Star" using assms(4) by (auto simp: seqNumText_def isDigit_def)
  then show ?thesis using readSeqNumber_star [OF assms(1,2)] assms(3) True by simp
next
  case False
  then have d: "e \<noteq> []" "\<forall>d \<in> set e. isDigit d" "v = decimal e" "1 \<le> v" "decimal e \<le> 2 ^ 63 - 1"
    using assms(4) by (auto simp: seqNumText_def)
  show ?thesis
    using readSeqNumber_digits [OF assms(1,2,3) d(2) assms(5) d(1) d(5)] d(3,4) by simp
qed

lemma readSequenceRange_text:
  assumes "Valid p" and "Valid (loaded p)"
    and "Tail (loaded p) = ea @ '':'' @ eb @ c # rest"
    and "seqNumText ea va" and "seqNumText eb vb" and "\<not> isDigit c"
  shows "readSequenceRange p =
     Some ((va, vb), (loaded p)\<lparr>pos := pos (loaded p) + length ea + 1 + length eb\<rparr>)"
proof -
  define q where "q = loaded p"
  define q1 where "q1 = q\<lparr>pos := pos q + length ea\<rparr>"
  define q2 where "q2 = q1\<lparr>pos := pos q1 + 1\<rparr>"
  have vq: "Valid q" "\<not> isEOL q"
    using assms(2) loaded_ready by (simp_all add: q_def)
  have 1: "readSeqNumber p = Some (va, q1)"
    using readSeqNumber_text [OF assms(1,2), of ea "CHR '':''" "eb @ c # rest" va] assms(3,4)
    by (simp add: q_def q1_def isDigit_def)
  have r1: "Valid q1" "\<not> isEOL q1" "Tail q1 = CHR '':'' # eb @ c # rest"
    using vq assms(3) by (simp_all add: q1_def flip: q_def)
  have 2: "accept '':'' q1 = Some (True, q2)"
    using accept_first_byte [of q1 "CHR '':''" "eb @ c # rest" "CHR '':''"] r1
    by (simp add: q2_def)
  have r2: "Valid q2" "loaded q2 = q2" "Tail q2 = eb @ c # rest"
    using r1 by (simp_all add: q2_def)
  have 3: "readSeqNumber q2 = Some (vb, q2\<lparr>pos := pos q2 + length eb\<rparr>)"
    using readSeqNumber_text [of q2 eb c rest vb] r2 assms(5,6) by simp
  show ?thesis
    using 1 2 3 r2(1)
    by (simp add: readSequenceRange_def q2_def q1_def add.assoc flip: q_def)
qed

section \<open>Ranges in both directions\<close>

lemma SequenceRange_symmetric:
  "SequenceRange_Min (a, b) = SequenceRange_Min (b, a)"
  "SequenceRange_Max (a, b) = SequenceRange_Max (b, a)"
  by auto

text \<open>
  C7. Let \<open>ea\<close> and \<open>eb\<close> be the texts of two sequence numbers (\<open>*\<close>, or the digits of
  an integer from 1 on) with the values \<open>va\<close> and \<open>vb\<close>. Parsing \<open>ea:eb\<close> stores the range
  \<open>(va, vb)\<close> and parsing \<open>eb:ea\<close> stores \<open>(vb, va)\<close>, in the order written. The two stored
  ranges have the same minimum and the same maximum, the same bounds resolved against
  any upper bound \<open>M\<close>, and \<open>Foreach\<close> does the same on both with every callback: the same
  calls in the same order.
\<close>

theorem range_direction_symmetry:
  assumes "Valid p1" and "Valid (loaded p1)"
    and "Tail (loaded p1) = ea @ '':'' @ eb @ c1 # rest1"
    and "Valid p2" and "Valid (loaded p2)"
    and "Tail (loaded p2) = eb @ '':'' @ ea @ c2 # rest2"
    and "seqNumText ea va" and "seqNumText eb vb" and "\<not> isDigit c1" and "\<not> isDigit c2"
  shows "readSequenceRange p1 =
           Some ((va, vb), (loaded p1)\<lparr>pos := pos (loaded p1) + length ea + 1 + length eb\<rparr>) \<and>
         readSequenceRange p2 =
           Some ((vb, va), (loaded p2)\<lparr>pos := pos (loaded p2) + length eb + 1 + length ea\<rparr>) \<and>
         SequenceRange_Min (va, vb) = SequenceRange_Min (vb, va) \<and>
         SequenceRange_Max (va, vb) = SequenceRange_Max (vb, va) \<and>
         resolvedMin M (va, vb) = resolvedMin M (vb, va) \<and>
         resolvedMax M (va, vb) = resolvedMax M (vb, va) \<and>
         Foreach M callback [(va, vb)] st = Foreach M callback [(vb, va)] st"
proof -
  have f: "Foreach M callback [(va, vb)] st = Foreach M callback [(vb, va)] st"
    by (simp only: Foreach.simps SequenceRange_symmetric [of va vb])
  have r: "resolvedMin M (va, vb) = resolvedMin M (vb, va)"
    "resolvedMax M (va, vb) = resolvedMax M (vb, va)"
    by (auto simp: resolvedMin_def resolvedMax_def)
  have m: "SequenceRange_Min (va, vb) = SequenceRange_Min (vb, va)"
    "SequenceRange_Max (va, vb) = SequenceRange_Max (vb, va)"
    by (rule SequenceRange_symmetric)+
  show ?thesis
    using readSequenceRange_text [OF assms(1,2,3,7,8,9)]
      readSequenceRange_text [OF assms(4,5,6,8,7,10)] f r m
    by blast
qed

definition atText :: "string \<Rightarrow> Parser" where
  "atText t =
     \<lparr>writer = [], reader = [], line = ''UID '' @ t @ crlf, pos = 4, isEOL = False,
      inSection = False, listDepth = 0, err = None\<rparr>"

lemma atText_simps [simp]:
  "Valid (atText t)" "loaded (atText t) = atText t" "Tail (atText t) = t @ crlf"
  "pos (atText t) = 4"
  by (simp_all add: atText_def Valid_def Tail_def)

lemma decimal_simps [simp]:
  "decimal [] = 0"
  "decimal (ds @ [d]) = 10 * decimal ds + digitValue d"
  by (simp_all add: decimal_def)

lemma decimal_one_digit: "decimal [d] = digitValue d"
  using decimal_simps(2) [of "[]" d] by simp

lemma decimal_two_digits: "decimal [d, e] = 10 * digitValue d + digitValue e"
  using decimal_simps(2) [of "[d]" e] by (simp add: decimal_one_digit)

lemma digitValue_simps [simp]:
  "digitValue CHR ''0'' = 0" "digitValue CHR ''1'' = 1" "digitValue CHR ''2'' = 2"
  "digitValue CHR ''3'' = 3" "digitValue CHR ''4'' = 4" "digitValue CHR ''5'' = 5"
  "digitValue CHR ''6'' = 6" "digitValue CHR ''7'' = 7" "digitValue CHR ''8'' = 8"
  "digitValue CHR ''9'' = 9"
  by (simp_all add: digitValue_def)

theorem range_direction_symmetry_witness:
  "readSequenceRange (atText ''3:*'') = Some ((3, Star), (atText ''3:*'')\<lparr>pos := 7\<rparr>) \<and>
   readSequenceRange (atText ''*:3'') = Some ((Star, 3), (atText ''*:3'')\<lparr>pos := 7\<rparr>) \<and>
   Foreach 5 recordCall [(3, Star)] [] = Foreach 5 recordCall [(Star, 3)] [] \<and>
   SequenceRange_Min (3, Star) = SequenceRange_Min (Star, 3)"
proof -
  have t: "Tail (loaded (atText ''3:*'')) = ''3'' @ '':'' @ ''*'' @ cr # [lf]"
    "Tail (loaded (atText ''*:3'')) = ''*'' @ '':'' @ ''3'' @ cr # [lf]"
    by (simp_all add: crlf_def)
  have e: "seqNumText ''3'' 3" "seqNumText ''*'' Star" "\<not> isDigit cr"
    by (simp_all add: seqNumText_def isDigit_def decimal_one_digit cr_def)
  have v: "Valid (atText ''3:*'')" "Valid (loaded (atText ''3:*''))"
    "Valid (atText ''*:3'')" "Valid (loaded (atText ''*:3''))"
    by simp_all
  show ?thesis
    using range_direction_symmetry [OF v(1,2) t(1) v(3,4) t(2) e(1,2,3,3), of 5 recordCall "[]"]
    by simp
qed

section \<open>Sequence numbers below one\<close>

text \<open>
  C9. A sequence number written in digits whose value is below 1, as the first or as
  the second endpoint of a range, puts \<open>ErrSeqNoOutOfBounds\<close> in the error slot, and the
  loop of \<open>ReadSequenceSet\<close> returns the set it had before this range: the range is not
  appended.
\<close>

theorem zero_sequence_number_rejected:
  assumes "Valid p" and "Valid (loaded p)" and "zs \<noteq> []" and "\<forall>d \<in> set zs. isDigit d"
    and "decimal zs < 1" and "\<not> isDigit c"
  shows "(Tail (loaded p) = zs @ c # rest \<longrightarrow>
            readSequenceRange p =
              Some ((decimal zs, decimal zs),
                (loaded p)\<lparr>pos := pos (loaded p) + length zs,
                            err := Some ErrSeqNoOutOfBounds\<rparr>) \<and>
            ReadSequenceSet_loop sset p =
              Some (sset,
                (loaded p)\<lparr>pos := pos (loaded p) + length zs,
                            err := Some ErrSeqNoOutOfBounds\<rparr>)) \<and>
         (seqNumText e v \<and> Tail (loaded p) = e @ '':'' @ zs @ c # rest \<longrightarrow>
            readSequenceRange p =
              Some ((0, 0),
                (loaded p)\<lparr>pos := pos (loaded p) + length e + 1 + length zs,
                            err := Some ErrSeqNoOutOfBounds\<rparr>) \<and>
            ReadSequenceSet_loop sset p =
              Some (sset,
                (loaded p)\<lparr>pos := pos (loaded p) + length e + 1 + length zs,
                            err := Some ErrSeqNoOutOfBounds\<rparr>))"
proof (intro conjI impI)
  define q where "q = loaded p"
  have sm: "decimal zs \<le> 2 ^ 63 - 1" using assms(5) by simp
  {
    assume t: "Tail (loaded p) = zs @ c # rest"
    define q1 where "q1 = q\<lparr>pos := pos q + length zs, err := Some ErrSeqNoOutOfBounds\<rparr>"
    have 1: "readSeqNumber p = Some (decimal zs, q1)"
      using readSeqNumber_digits [OF assms(1,2) t assms(4,6,3) sm] assms(5)
      by (simp add: q1_def q_def)
    have 2: "accept '':'' q1 = Some (False, q1)"
      by (simp add: accept_def q1_def)
    show r: "readSequenceRange p =
        Some ((decimal zs, decimal zs),
          (loaded p)\<lparr>pos := pos (loaded p) + length zs, err := Some ErrSeqNoOutOfBounds\<rparr>)"
      using 1 2 by (simp add: readSequenceRange_def q1_def q_def)
    show "ReadSequenceSet_loop sset p =
        Some (sset,
          (loaded p)\<lparr>pos := pos (loaded p) + length zs, err := Some ErrSeqNoOutOfBounds\<rparr>)"
      by (subst ReadSequenceSet_loop.simps) (simp add: r)
  }
  {
    assume "seqNumText e v \<and> Tail (loaded p) = e @ '':'' @ zs @ c # rest"
    then have e: "seqNumText e v" and t: "Tail (loaded p) = e @ '':'' @ zs @ c # rest"
      by simp_all
    define q1 where "q1 = q\<lparr>pos := pos q + length e\<rparr>"
    define q2 where "q2 = q1\<lparr>pos := pos q1 + 1\<rparr>"
    have vq: "Valid q" "\<not> isEOL q"
      using assms(2) loaded_ready by (simp_all add: q_def)
    have 1: "readSeqNumber p = Some (v, q1)"
      using readSeqNumber_text [OF assms(1,2), of e "CHR '':''" "zs @ c # rest" v] t e
      by (simp add: q_def q1_def isDigit_def)
    have r1: "Valid q1" "\<not> isEOL q1" "Tail q1 = CHR '':'' # zs @ c # rest"
      using vq t by (simp_all add: q1_def flip: q_def)
    have 2: "accept '':'' q1 = Some (True, q2)"
      using accept_first_byte [of q1 "CHR '':''" "zs @ c # rest" "CHR '':''"] r1
      by (simp add: q2_def)
    have r2: "Valid q2" "loaded q2 = q2" "Tail q2 = zs @ c # rest"
      using r1 by (simp_all add: q2_def)
    have 3: "readSeqNumber q2 =
        Some (decimal zs, q2\<lparr>pos := pos q2 + length zs, err := Some ErrSeqNoOutOfBounds\<rparr>)"
      using readSeqNumber_digits [of q2 zs c rest] r2 assms(3,4,5,6) sm by simp
    show r: "readSequenceRange p =
        Some ((0, 0),
          (loaded p)\<lparr>pos := pos (loaded p) + length e + 1 + length zs,
                      err := Some ErrSeqNoOutOfBounds\<rparr>)"
      using 1 2 3 r2(1)
      by (simp add: readSequenceRange_def q2_def q1_def add.assoc flip: q_def)
    show "ReadSequenceSet_loop sset p =
        Some (sset,
          (loaded p)\<lparr>pos := pos (loaded p) + length e + 1 + length zs,
                      err := Some ErrSeqNoOutOfBounds\<rparr>)"
      by (subst ReadSequenceSet_loop.simps) (simp add: r)
  }
qed

theorem zero_sequence_number_rejected_witness:
  "ReadSequenceSet_loop [(1, 2)] (atText ''00'') =
     Some ([(1, 2)], (atText ''00'')\<lparr>pos := 6, err := Some ErrSeqNoOutOfBounds\<rparr>) \<and>
   ReadSequenceSet_loop [(1, 2)] (atText ''7:0'') =
     Some ([(1, 2)], (atText ''7:0'')\<lparr>pos := 7, err := Some ErrSeqNoOutOfBounds\<rparr>)"
proof -
  have z: "''00'' \<noteq> []" "\<forall>d \<in> set ''00''. isDigit d" "decimal ''00'' < 1"
    "''0'' \<noteq> []" "\<forall>d \<in> set ''0''. isDigit d" "decimal ''0'' < 1" "\<not> isDigit cr"
    by (simp_all add: isDigit_def decimal_two_digits decimal_one_digit cr_def)
  have s: "seqNumText ''7'' 7"
    by (simp add: seqNumText_def isDigit_def decimal_one_digit)
  have t: "Tail (loaded (atText ''00'')) = ''00'' @ cr # [lf]"
    "Tail (loaded (atText ''7:0'')) = ''7'' @ '':'' @ ''0'' @ cr # [lf]"
    by (simp_all add: crlf_def)
  have v: "Valid (atText ''00'')" "Valid (loaded (atText ''00''))"
    "Valid (atText ''7:0'')" "Valid (loaded (atText ''7:0''))"
    by simp_all
  show ?thesis
    using zero_sequence_number_rejected [OF v(1,2) z(1,2,3,7),
        where rest = "[lf]" and sset = "[(1, 2)]" and e = "[]" and v = 0]
      zero_sequence_number_rejected [OF v(3,4) z(4,5,6,7),
        where rest = "[lf]" and sset = "[(1, 2)]" and e = "''7''" and v = 7]
      s t
    by simp
qed

section \<open>Literals\<close>

lemma Expect_loaded:
  assumes "Valid p" and "Valid (loaded p)"
  shows "Expect s p =
     (if ToLower (take (length s) (Tail (loaded p))) = ToLower s
      then Some ((loaded p)\<lparr>pos := pos (loaded p) + length s\<rparr>)
      else Some ((loaded p)\<lparr>err := Some (ExpectedError s (take (length s) (Tail (loaded p))))\<rparr>))"
  using accept_loaded [OF assms(1), of s] assms by (simp add: Expect_def Let_def)

lemma writer_loaded [simp]: "writer (loaded p) = writer p"
  by (simp add: loaded_def readLine_def Let_def split: prod.splits)

lemma ReadLiteralPrefix_text:
  assumes "Valid p" and "Valid (loaded p)" and "ds \<noteq> []" and "\<forall>d \<in> set ds. isDigit d"
    and "decimal ds \<le> 2 ^ 63 - 1"
    and "Tail (loaded p) = ''{'' @ ds @ sfx @ ''}'' @ crlf @ rest"
    and "sfx = [] \<or> sfx = ''+''"
  shows "ReadLiteralPrefix p =
     Some ((decimal ds, sfx = []),
       (loaded p)\<lparr>pos := pos (loaded p) + 1 + length ds + length sfx + 3\<rparr>)"
proof -
  define q where "q = loaded p"
  define q1 where "q1 = q\<lparr>pos := pos q + 1\<rparr>"
  define q2 where "q2 = q1\<lparr>pos := pos q1 + length ds\<rparr>"
  define q3 where "q3 = q2\<lparr>pos := pos q2 + length sfx\<rparr>"
  have vq: "Valid q" "\<not> isEOL q"
    using assms(2) loaded_ready by (simp_all add: q_def)
  obtain c rest' where c: "sfx @ ''}'' @ crlf @ rest = c # rest'" "\<not> isDigit c"
    using assms(7) by (auto simp: isDigit_def)
  have 1: "Expect ''{'' p = Some q1"
    using Expect_loaded [OF assms(1,2), of "''{''"] assms(6)
    by (simp add: q1_def q_def toLowerByte_Char)
  have r1: "Valid q1" "\<not> isEOL q1" "Tail q1 = ds @ c # rest'"
    using vq assms(6) c(1) by (simp_all add: q1_def flip: q_def)
  have 2: "ReadInt q1 = Some (decimal ds, q2)"
    using ReadInt_digits [OF r1 assms(4) c(2) assms(3,5)] by (simp add: q2_def)
  have r2: "Valid q2" "\<not> isEOL q2" "Tail q2 = sfx @ ''}'' @ crlf @ rest"
    using r1 c(1) by (simp_all add: q2_def)
  have 3: "accept ''+'' q2 = Some (sfx \<noteq> [], q3)"
    using accept_loaded [of q2 "''+''"] r2 assms(7)
    by (auto simp: q3_def Let_def toLowerByte_Char)
  have r3: "Valid q3" "\<not> isEOL q3" "Tail q3 = ''}'' @ crlf @ rest"
    using r2 by (simp_all add: q3_def)
  have 4: "Expect (''}'' @ crlf) q3 = Some (q3\<lparr>pos := pos q3 + 3\<rparr>)"
    using Expect_loaded [of q3 "''}'' @ crlf"] r3
    by (simp add: crlf_def cr_def lf_def toLowerByte_Char)
  show ?thesis
    using 1 2 3 4
    by (simp add: ReadLiteralPrefix_def q3_def q2_def q1_def add.assoc flip: q_def)
qed

text \<open>
  C6. On a literal prefix \<open>{n}\<close> followed by CR LF, \<open>ReadLiteralStream\<close> writes the
  continuation prompt as one chunk and returns the reader limited to \<open>n\<close> bytes, in a
  state whose connection reader is untouched: none of the literal's bytes has been read
  when the prompt is out. On \<open>{n+}\<close> nothing is written. In both cases \<open>ReadLiteral\<close>
  then takes the next \<open>n\<close> bytes of the connection as they are, whatever they contain,
  and leaves the bytes after them; the next read starts a new line.
\<close>

theorem literal_framing:
  assumes "Valid p" and "Valid (loaded p)" and "ds \<noteq> []" and "\<forall>d \<in> set ds. isDigit d"
    and "decimal ds \<le> 2 ^ 63 - 1"
  shows "(Tail (loaded p) = ''{'' @ ds @ ''}'' @ crlf @ rest \<longrightarrow>
            ReadLiteralStream p =
              Some (Some (decimal ds),
                (loaded p)\<lparr>writer := writer p @ [''+ ready'' @ crlf],
                            pos := pos (loaded p) + length ds + 4, isEOL := True\<rparr>) \<and>
            ReadLiteral p =
              Some (take (nat (decimal ds)) (reader (loaded p)),
                (loaded p)\<lparr>writer := writer p @ [''+ ready'' @ crlf],
                            reader := drop (nat (decimal ds)) (reader (loaded p)),
                            pos := pos (loaded p) + length ds + 4, isEOL := True\<rparr>)) \<and>
         (Tail (loaded p) = ''{'' @ ds @ ''+}'' @ crlf @ rest \<longrightarrow>
            ReadLiteralStream p =
              Some (Some (decimal ds),
                (loaded p)\<lparr>pos := pos (loaded p) + length ds + 5, isEOL := True\<rparr>) \<and>
            ReadLiteral p =
              Some (take (nat (decimal ds)) (reader (loaded p)),
                (loaded p)\<lparr>reader := drop (nat (decimal ds)) (reader (loaded p)),
                            pos := pos (loaded p) + length ds + 5, isEOL := True\<rparr>)) \<and>
         (nat (decimal ds) \<le> length (reader (loaded p)) \<longrightarrow>
            length (take (nat (decimal ds)) (reader (loaded p))) = nat (decimal ds))"
proof (intro conjI impI)
  {
    assume t: "Tail (loaded p) = ''{'' @ ds @ ''}'' @ crlf @ rest"
    have pre: "ReadLiteralPrefix p =
        Some ((decimal ds, True), (loaded p)\<lparr>pos := pos (loaded p) + length ds + 4\<rparr>)"
      using ReadLiteralPrefix_text [OF assms, of "[]" rest] t by (simp add: add.commute)
    show s: "ReadLiteralStream p =
        Some (Some (decimal ds),
          (loaded p)\<lparr>writer := writer p @ [''+ ready'' @ crlf],
                      pos := pos (loaded p) + length ds + 4, isEOL := True\<rparr>)"
      using assms(2) by (simp add: ReadLiteralStream_def pre Continuation_def)
    show "ReadLiteral p =
        Some (take (nat (decimal ds)) (reader (loaded p)),
          (loaded p)\<lparr>writer := writer p @ [''+ ready'' @ crlf],
                      reader := drop (nat (decimal ds)) (reader (loaded p)),
                      pos := pos (loaded p) + length ds + 4, isEOL := True\<rparr>)"
      using assms(2) by (simp add: ReadLiteral_def s ReadAll_LimitReader_def)
  }
  {
    assume t: "Tail (loaded p) = ''{'' @ ds @ ''+}'' @ crlf @ rest"
    have pre: "ReadLiteralPrefix p =
        Some ((decimal ds, False), (loaded p)\<lparr>pos := pos (loaded p) + length ds + 5\<rparr>)"
      using ReadLiteralPrefix_text [OF assms, of "''+''" rest] t by (simp add: add.commute)
    show s: "ReadLiteralStream p =
        Some (Some (decimal ds),
          (loaded p)\<lparr>pos := pos (loaded p) + length ds + 5, isEOL := True\<rparr>)"
      using assms(2) by (simp add: ReadLiteralStream_def pre)
    show "ReadLiteral p =
        Some (take (nat (decimal ds)) (reader (loaded p)),
          (loaded p)\<lparr>reader := drop (nat (decimal ds)) (reader (loaded p)),
                      pos := pos (loaded p) + length ds + 5, isEOL := True\<rparr>)"
      using assms(2) by (simp add: ReadLiteral_def s ReadAll_LimitReader_def)
  }
  show "nat (decimal ds) \<le> length (reader (loaded p)) \<Longrightarrow>
      length (take (nat (decimal ds)) (reader (loaded p))) = nat (decimal ds)"
    by simp
qed

definition literalLine :: "string \<Rightarrow> Parser" where
  "literalLine t =
     \<lparr>writer = [], reader = ''a'' @ crlf @ ''bc) next'' @ crlf, line = ''LOGIN '' @ t @ crlf,
      pos = 6, isEOL = False, inSection = False, listDepth = 0, err = None\<rparr>"

theorem literal_framing_witness:
  "ReadLiteralStream (literalLine ''{5}'') =
     Some (Some 5,
       (literalLine ''{5}'')\<lparr>writer := [''+ ready'' @ crlf], pos := 11, isEOL := True\<rparr>) \<and>
   ReadLiteral (literalLine ''{5}'') =
     Some (''a'' @ crlf @ ''bc'',
       (literalLine ''{5}'')\<lparr>writer := [''+ ready'' @ crlf], reader := '') next'' @ crlf,
                               pos := 11, isEOL := True\<rparr>) \<and>
   ReadLiteral (literalLine ''{5+}'') =
     Some (''a'' @ crlf @ ''bc'',
       (literalLine ''{5+}'')\<lparr>reader := '') next'' @ crlf, pos := 12, isEOL := True\<rparr>)"
proof -
  have v: "Valid (literalLine t)" "loaded (literalLine t) = literalLine t"
    "Tail (literalLine t) = t @ crlf" "pos (literalLine t) = 6" "writer (literalLine t) = []"
    "reader (literalLine t) = ''a'' @ crlf @ ''bc) next'' @ crlf" for t
    by (simp_all add: literalLine_def Valid_def Tail_def)
  have d: "''5'' \<noteq> []" "\<forall>d \<in> set ''5''. isDigit d" "decimal ''5'' \<le> 2 ^ 63 - 1"
    "decimal ''5'' = 5"
    by (simp_all add: isDigit_def decimal_one_digit)
  have a: "Valid (loaded (literalLine t))" for t by (simp add: v)
  show ?thesis
    using literal_framing [OF v(1) a d(1,2,3), of "''{5}''" "[]"]
      literal_framing [OF v(1) a d(1,2,3), of "''{5+}''" "[]"]
    by (simp add: v d(4) crlf_def)
qed

section \<open>Case of atoms\<close>

text \<open>
  Title case in the words of the specification: the byte after the backslash as a
  capital letter, the bytes after it as small letters; bytes that are not letters stay.
\<close>

definition toUpperByte :: "char \<Rightarrow> char" where
  "toUpperByte c =
     (if CHR ''a'' \<le> c \<and> c \<le> CHR ''z'' then char_of (of_char c - (32 :: nat)) else c)"

definition titleCase :: "string \<Rightarrow> string" where
  "titleCase s =
     (case s of
        [] \<Rightarrow> []
      | b # t \<Rightarrow> b # (case t of [] \<Rightarrow> [] | c # cs \<Rightarrow> toUpperByte c # map toLowerByte cs))"

definition letterMask :: "char \<Rightarrow> bool" where
  "letterMask c \<longleftrightarrow> byte CHR ''A'' \<le> (byte c AND 0xDF) \<and> (byte c AND 0xDF) \<le> byte CHR ''Z''"

lemma mask_facts:
  "(if letterMask c then chr ((byte c AND 0xDF) OR 0) else c) = toUpperByte c"
  "(if letterMask c then chr ((byte c AND 0xDF) OR 0x20) else c) = toLowerByte c"
  "(letterMask c \<and> byte c AND 0x20 \<noteq> 0) \<or> toUpperByte c = c"
  "(letterMask c \<and> byte c AND 0x20 \<noteq> 0x20) \<or> toLowerByte c = c"
  by (cases c rule: char.exhaust [case_names Char], rename_tac b0 b1 b2 b3 b4 b5 b6 b7,
      case_tac b0; case_tac b1; case_tac b2; case_tac b3; case_tac b4; case_tac b5;
      case_tac b6; case_tac b7;
      simp add: letterMask_def byte_def chr_def toUpperByte_def toLowerByte_def char_of_def
        bit_0 word_le_nat_alt)+

lemma mask_lower:
  "letterMask c \<Longrightarrow> chr (byte c AND 0xDF OR 0x20) = toLowerByte c"
  "\<not> letterMask c \<Longrightarrow> toLowerByte c = c"
  using mask_facts(2) [of c] by (auto split: if_splits)

lemma mask_upper:
  "letterMask c \<Longrightarrow> chr (byte c AND 0xDF) = toUpperByte c"
  "\<not> letterMask c \<Longrightarrow> toUpperByte c = c"
  using mask_facts(1) [of c] by (auto split: if_splits)

lemma letterMask_backslash [simp]: "\<not> letterMask backslash"
  by (simp add: letterMask_def byte_def backslash_def word_le_nat_alt)

lemma drop_Cons_nth: "drop i xs = c # cs \<Longrightarrow> xs ! i = c \<and> drop (Suc i) xs = cs"
  by (metis Cons_nth_drop_Suc drop_all list.distinct(1) list.inject not_le)

lemma needsChange_Cons:
  "needsChange atom i want (c # cs) =
     (if letterMask c \<and> byte c AND 0x20 \<noteq> want then True
      else if i = 1 \<and> atom ! 0 = backslash then needsChange atom (i + 1) 0x20 cs
      else needsChange atom (i + 1) want cs)"
  by (simp add: Let_def letterMask_def)

lemma rewrite_Cons:
  "rewrite atom i want (c # cs) =
     (if letterMask c then chr (byte c AND 0xDF OR want) else atom ! i) #
     rewrite atom (i + 1) (if i = 1 \<and> atom ! 0 = backslash then 0x20 else want) cs"
  by (simp add: Let_def letterMask_def)

declare needsChange.simps(2) [simp del] rewrite.simps(2) [simp del]

lemma rewrite_lower:
  "drop i atom = cs \<Longrightarrow> 2 \<le> i \<Longrightarrow> rewrite atom i 0x20 cs = map toLowerByte cs"
proof (induction cs arbitrary: i)
  case Nil
  show ?case by simp
next
  case (Cons c cs)
  have n: "atom ! i = c" "drop (Suc i) atom = cs"
    using drop_Cons_nth [OF Cons.prems(1)] by simp_all
  have "rewrite atom (Suc i) 0x20 cs = map toLowerByte cs"
    using Cons.IH [OF n(2)] Cons.prems(2) by simp
  then show ?case
    using Cons.prems(2) n(1)
    by (cases "letterMask c") (simp_all add: rewrite_Cons mask_lower)
qed

lemma needsChange_lower:
  "drop i atom = cs \<Longrightarrow> 2 \<le> i \<Longrightarrow> \<not> needsChange atom i 0x20 cs \<Longrightarrow> map toLowerByte cs = cs"
proof (induction cs arbitrary: i)
  case Nil
  show ?case by simp
next
  case (Cons c cs)
  have n: "drop (Suc i) atom = cs"
    using drop_Cons_nth [OF Cons.prems(1)] by simp
  have a: "\<not> (letterMask c \<and> byte c AND 0x20 \<noteq> 0x20)" "\<not> needsChange atom (Suc i) 0x20 cs"
    using Cons.prems(2,3) by (auto simp: needsChange_Cons split: if_splits)
  have "map toLowerByte cs = cs"
    using Cons.IH [OF n _ a(2)] Cons.prems(2) by simp
  then show ?case using mask_facts(4) [of c] a(1) by auto
qed

lemma rewrite_upper:
  "drop i atom = cs \<Longrightarrow> atom ! 0 \<noteq> backslash \<Longrightarrow> rewrite atom i 0 cs = map toUpperByte cs"
proof (induction cs arbitrary: i)
  case Nil
  show ?case by simp
next
  case (Cons c cs)
  have n: "atom ! i = c" "drop (Suc i) atom = cs"
    using drop_Cons_nth [OF Cons.prems(1)] by simp_all
  have "rewrite atom (Suc i) 0 cs = map toUpperByte cs"
    using Cons.IH [OF n(2)] Cons.prems(2) by simp
  then show ?case
    using Cons.prems(2) n(1)
    by (cases "letterMask c") (simp_all add: rewrite_Cons mask_upper)
qed

lemma needsChange_upper:
  "drop i atom = cs \<Longrightarrow> atom ! 0 \<noteq> backslash \<Longrightarrow> \<not> needsChange atom i 0 cs \<Longrightarrow>
     map toUpperByte cs = cs"
proof (induction cs arbitrary: i)
  case Nil
  show ?case by simp
next
  case (Cons c cs)
  have n: "drop (Suc i) atom = cs"
    using drop_Cons_nth [OF Cons.prems(1)] by simp
  have a: "\<not> (letterMask c \<and> byte c AND 0x20 \<noteq> 0)" "\<not> needsChange atom (Suc i) 0 cs"
    using Cons.prems(2,3) by (auto simp: needsChange_Cons split: if_splits)
  have "map toUpperByte cs = cs"
    using Cons.IH [OF n _ a(2)] Cons.prems(2) by simp
  then show ?case using mask_facts(3) [of c] a(1) by auto
qed

text \<open>
  What \<open>normalize\<close> computes: title case for a flag, upper case for every other atom.
\<close>

lemma normalizeAtom_flag: "normalizeAtom (backslash # t) = titleCase (backslash # t)"
proof (cases t)
  case Nil
  then show ?thesis by (simp add: normalizeAtom_def titleCase_def needsChange_Cons rewrite_Cons)
next
  case (Cons c cs)
  define atom where "atom = backslash # c # cs"
  have d: "drop 2 atom = cs" "atom ! 0 = backslash" "atom ! 1 = c"
    by (simp_all add: atom_def)
  have r: "rewrite atom 0 0 atom = backslash # toUpperByte c # map toLowerByte cs"
    using rewrite_lower [OF d(1)]
    by (cases "letterMask c") (simp_all add: atom_def rewrite_Cons mask_upper numeral_2_eq_2)
  have e: "needsChange atom 0 0 atom =
      (if letterMask c \<and> byte c AND 0x20 \<noteq> 0 then True else needsChange atom 2 0x20 cs)"
    by (simp add: atom_def needsChange_Cons numeral_2_eq_2)
  have n: "needsChange atom 0 0 atom \<or> (toUpperByte c = c \<and> map toLowerByte cs = cs)"
  proof (cases "needsChange atom 0 0 atom")
    case False
    then have "\<not> (letterMask c \<and> byte c AND 0x20 \<noteq> 0)" "\<not> needsChange atom 2 0x20 cs"
      using e by (simp_all split: if_splits)
    then show ?thesis
      using needsChange_lower [OF d(1)] mask_facts(3) [of c] by auto
  qed simp
  show ?thesis
    using r n by (auto simp: normalizeAtom_def titleCase_def Cons atom_def)
qed

lemma normalizeAtom_plain:
  assumes "s = [] \<or> hd s \<noteq> backslash"
  shows "normalizeAtom s = map toUpperByte s"
proof (cases s)
  case Nil
  then show ?thesis by (simp add: normalizeAtom_def)
next
  case (Cons c cs)
  then have b: "s ! 0 \<noteq> backslash" using assms by simp
  have "rewrite s 0 0 s = map toUpperByte s"
    using rewrite_upper [of 0 s s] b by simp
  moreover have "\<not> needsChange s 0 0 s \<Longrightarrow> map toUpperByte s = s"
    using needsChange_upper [of 0 s s] b by simp
  ultimately show ?thesis by (auto simp: normalizeAtom_def)
qed

end
